theory Spec2Isabelle
  imports Complex_Main "HOL-Library.Word" "HOL-Library.Log_Nat" "HOL-Library.Multiset"
begin

unbundle bit_operations_syntax

section \<open>Machine model\<close>

text \<open>
  The kernels of \<^verbatim>\<open>inc/simd/arithmetic.h\<close> work on caller-owned buffers through raw
  pointers. A buffer is modelled as the function from the element index, relative to the
  pointer, to the element; the index is an \<open>int\<close> because the code computes indices in
  \<^verbatim>\<open>int\<close> and nothing in C bounds them. A routine takes the output buffer and returns it
  updated. Input and output are separate buffers.
\<close>

type_synonym int16_t = "16 word"
type_synonym int32_t = "32 word"
type_synonym uint16_t = "16 word"
type_synonym uint32_t = "32 word"
type_synonym uint64_t = "64 word"
type_synonym float = "32 word"
type_synonym 'a ptr = "int \<Rightarrow> 'a"

text \<open>\<^verbatim>\<open>(int)length\<close> for a \<^verbatim>\<open>size_t length\<close>: the low 32 bits, read as two's complement.\<close>

definition int_of_size_t :: "nat \<Rightarrow> int" where
  "int_of_size_t n = signed_take_bit 31 (int n)"

text \<open>An \<^verbatim>\<open>int\<close> passed where a \<^verbatim>\<open>size_t\<close> is expected.\<close>

definition size_t_of_int :: "int \<Rightarrow> nat" where
  "size_t_of_int z = nat (z mod 2 ^ 64)"

text \<open>
  \<^verbatim>\<open>for (int i = i0; i < n; i += step) body\<close>, with the loop state passed through the
  body. Every loop of the module advances by a positive constant.
\<close>

function for_loop :: "int \<Rightarrow> int \<Rightarrow> int \<Rightarrow> (int \<Rightarrow> 's \<Rightarrow> 's) \<Rightarrow> 's \<Rightarrow> 's" where
  "for_loop i n step body s =
     (if i < n \<and> 0 < step then for_loop (i + step) n step body (body i s) else s)"
  by pat_completeness auto
termination
  by (relation "measure (\<lambda>(i, n, step, body, s). nat (n - i))") auto

declare for_loop.simps [simp del]

text \<open>The value of the counter when the loop ends.\<close>

definition loop_end :: "int \<Rightarrow> int \<Rightarrow> int \<Rightarrow> int" where
  "loop_end i n step = (if i < n then i + step * ((n - 1 - i) div step + 1) else i)"

text \<open>\<^verbatim>\<open>p + off\<close> on a pointer, and the buffer of \<open>p\<close> after a callee wrote through \<open>p + off\<close>.\<close>

definition ptr_add :: "'a ptr \<Rightarrow> int \<Rightarrow> 'a ptr" where
  "ptr_add p off = (\<lambda>k. p (off + k))"

definition ptr_sub :: "'a ptr \<Rightarrow> int \<Rightarrow> 'a ptr" where
  "ptr_sub p off = (\<lambda>k. p (k - off))"

text \<open>A vector register is the list of its lanes, lane 0 first. Loads and stores move
  consecutive elements.\<close>

definition vload :: "nat \<Rightarrow> 'a ptr \<Rightarrow> int \<Rightarrow> 'a list" where
  "vload n p i = map (\<lambda>k. p (i + int k)) [0..<n]"

definition vstore :: "'a ptr \<Rightarrow> int \<Rightarrow> 'a list \<Rightarrow> 'a ptr" where
  "vstore p i v = (\<lambda>k. if i \<le> k \<and> k < i + int (length v) then v ! nat (k - i) else p k)"

text \<open>Number of significant bits of a natural number, and \<^verbatim>\<open>__builtin_clz\<close> on 32 bits.\<close>

fun bit_length :: "nat \<Rightarrow> nat" where
  "bit_length n = (if n = 0 then 0 else Suc (bit_length (n div 2)))"

declare bit_length.simps [simp del]

definition builtin_clz :: "uint32_t \<Rightarrow> int" where
  "builtin_clz x = 32 - int (bit_length (unat x))"

section \<open>IEEE 754 binary32\<close>

text \<open>
  A \<^verbatim>\<open>float\<close> is its 32-bit pattern: sign, 8 exponent bits, 23 fraction bits. A finite
  float is a whole multiple of \<open>2 ^ -149\<close>; \<open>f32_mant\<close> is the magnitude in that unit.
\<close>

definition f32_sign :: "float \<Rightarrow> bool" where
  "f32_sign w = (2 ^ 31 \<le> unat w)"

definition f32_exp :: "float \<Rightarrow> nat" where
  "f32_exp w = (unat w div 2 ^ 23) mod 2 ^ 8"

definition f32_frac :: "float \<Rightarrow> nat" where
  "f32_frac w = unat w mod 2 ^ 23"

definition f32_is_nan :: "float \<Rightarrow> bool" where
  "f32_is_nan w = (f32_exp w = 255 \<and> f32_frac w \<noteq> 0)"

definition f32_is_inf :: "float \<Rightarrow> bool" where
  "f32_is_inf w = (f32_exp w = 255 \<and> f32_frac w = 0)"

definition f32_mant :: "float \<Rightarrow> nat" where
  "f32_mant w = (if f32_exp w = 0 then f32_frac w
                 else (2 ^ 23 + f32_frac w) * 2 ^ (f32_exp w - 1))"

definition f32_units :: "float \<Rightarrow> int" where
  "f32_units w = (if f32_sign w then - int (f32_mant w) else int (f32_mant w))"

definition f32_value :: "float \<Rightarrow> real" where
  "f32_value w = real_of_int (f32_units w) / 2 ^ 149"

definition f32_pack :: "bool \<Rightarrow> nat \<Rightarrow> float" where
  "f32_pack s mag = word_of_nat ((if s then 2 ^ 31 else 0) + mag)"

text \<open>
  Round to nearest, ties to even: the non-sign bits of the float nearest to
  \<open>a / 2 ^ k\<close> units of \<open>2 ^ -149\<close>, infinity on overflow.
\<close>

definition f32_round :: "nat \<Rightarrow> nat \<Rightarrow> nat" where
  "f32_round a k =
     (let sh = max k (bit_length a - 24);
          q = a div 2 ^ sh;
          r = a mod 2 ^ sh;
          q' = (if 2 ^ sh < 2 * r \<or> (2 * r = 2 ^ sh \<and> odd q) then q + 1 else q)
      in min ((sh - k) * 2 ^ 23 + q') 0x7F800000)"

definition f32_quiet :: "float \<Rightarrow> float" where
  "f32_quiet w = w OR 0x00400000"

definition f32_add :: "float \<Rightarrow> float \<Rightarrow> float" where
  "f32_add a b =
     (if f32_is_nan a then f32_quiet a
      else if f32_is_nan b then f32_quiet b
      else if f32_is_inf a then (if f32_is_inf b \<and> f32_sign a \<noteq> f32_sign b then 0xFFC00000 else a)
      else if f32_is_inf b then b
      else let s = f32_units a + f32_units b
           in if s = 0 then (if f32_sign a \<and> f32_sign b then 0x80000000 else 0)
              else f32_pack (s < 0) (f32_round (nat \<bar>s\<bar>) 0))"


text \<open>\<^verbatim>\<open>(float)x\<close> for an integer \<open>x\<close>.\<close>

definition f32_of_int :: "int \<Rightarrow> float" where
  "f32_of_int z = (if z = 0 then 0 else f32_pack (z < 0) (f32_round (nat \<bar>z\<bar> * 2 ^ 149) 0))"

text \<open>
  Float to integer, truncating toward zero. Where the truncated value does not fit the
  target, C leaves the conversion undefined; the routines modelled here are the x86 ones,
  whose conversion instruction (\<^verbatim>\<open>cvttss2si\<close>, and \<^verbatim>\<open>cvttps2dq\<close> in the vector
  bodies) then yields \<^verbatim>\<open>0x80000000\<close>. A cast to \<^verbatim>\<open>int16_t\<close> keeps the low half of that
  32-bit result.
\<close>

definition f32_trunc :: "float \<Rightarrow> int" where
  "f32_trunc w = (let t = int (f32_mant w div 2 ^ 149) in if f32_sign w then - t else t)"

definition float_to_int32_t :: "float \<Rightarrow> int32_t" where
  "float_to_int32_t w =
     (if f32_exp w = 255 \<or> f32_trunc w < - (2 ^ 31) \<or> 2 ^ 31 \<le> f32_trunc w then 0x80000000
      else word_of_int (f32_trunc w))"

definition float_to_int16_t :: "float \<Rightarrow> int16_t" where
  "float_to_int16_t w = ucast (float_to_int32_t w)"

definition int16_t_to_float :: "int16_t \<Rightarrow> float" where
  "int16_t_to_float x = f32_of_int (sint x)"

section \<open>Scalar reference routines\<close>

text \<open>
  The \<^verbatim>\<open>_na\<close> routines. Their loops count in \<^verbatim>\<open>size_t\<close>, except \<^verbatim>\<open>sum_elements_na\<close>
  and \<^verbatim>\<open>add_to_all_na\<close>, which count in \<^verbatim>\<open>int\<close> up to \<^verbatim>\<open>(int)length\<close>. The routines
  that add or multiply floats take the operation as a parameter; the program is the
  instance at \<open>f32_add\<close> or \<open>f32_mul\<close>.
\<close>

definition int16_to_float_na :: "int16_t ptr \<Rightarrow> nat \<Rightarrow> float ptr \<Rightarrow> float ptr" where
  "int16_to_float_na data len res =
     for_loop 0 (int len) 1 (\<lambda>i res. res(i := int16_t_to_float (data i))) res"

definition float_to_int16_na :: "float ptr \<Rightarrow> nat \<Rightarrow> int16_t ptr \<Rightarrow> int16_t ptr" where
  "float_to_int16_na data len res =
     for_loop 0 (int len) 1 (\<lambda>i res. res(i := float_to_int16_t (data i))) res"

definition float_to_int32_na :: "float ptr \<Rightarrow> nat \<Rightarrow> int32_t ptr \<Rightarrow> int32_t ptr" where
  "float_to_int32_na data len res =
     for_loop 0 (int len) 1 (\<lambda>i res. res(i := float_to_int32_t (data i))) res"

definition int32_to_int16_na :: "int32_t ptr \<Rightarrow> nat \<Rightarrow> int16_t ptr \<Rightarrow> int16_t ptr" where
  "int32_to_int16_na data len res =
     for_loop 0 (int len) 1 (\<lambda>i res. res(i := ucast (data i))) res"

definition int16_to_int32_na :: "int16_t ptr \<Rightarrow> nat \<Rightarrow> int32_t ptr \<Rightarrow> int32_t ptr" where
  "int16_to_int32_na data len res =
     for_loop 0 (int len) 1 (\<lambda>i res. res(i := scast (data i))) res"

text \<open>The body of the loop of \<^verbatim>\<open>float16_to_float_na\<close>: one half-precision word decoded.\<close>

definition float16_decode :: "uint16_t \<Rightarrow> uint32_t" where
  "float16_decode in0 =
     (let exp = (ucast in0 AND 0x7c00 :: uint32_t);
          bp = (if exp = 0 then
                  (let bp = (ucast in0 AND 0x03ff :: uint32_t)
                   in if bp = 0 then bp
                      else (let lz = builtin_clz bp - 16 - 6;
                                exp = push_bit 23 (127 - 15 - word_of_int lz :: uint32_t);
                                bp = push_bit (nat (lz + 1)) bp
                            in exp OR push_bit 13 (bp AND 0x03ff)))
                else if exp = 0x7c00 then
                  push_bit 13 (ucast in0 AND 0x03ff :: uint32_t) OR 0x7f800000
                else push_bit 13 (ucast in0 AND 0x7fff :: uint32_t) + 0x38000000);
          sign = push_bit 16 (ucast in0 AND 0x8000 :: uint32_t)
      in bp OR sign)"

definition float16_to_float_na :: "uint16_t ptr \<Rightarrow> nat \<Rightarrow> float ptr \<Rightarrow> float ptr" where
  "float16_to_float_na data len res =
     for_loop 0 (int len) 1 (\<lambda>i res. res(i := float16_decode (data i))) res"

definition real_multiply_scalar_na ::
  "('f \<Rightarrow> 'f \<Rightarrow> 'f) \<Rightarrow> 'f ptr \<Rightarrow> nat \<Rightarrow> 'f \<Rightarrow> 'f ptr \<Rightarrow> 'f ptr" where
  "real_multiply_scalar_na fmul array len value0 res =
     for_loop 0 (int len) 1 (\<lambda>i res. res(i := fmul (array i) value0)) res"

definition sum_elements_na :: "('f \<Rightarrow> 'f \<Rightarrow> 'f) \<Rightarrow> 'f \<Rightarrow> 'f ptr \<Rightarrow> nat \<Rightarrow> 'f" where
  "sum_elements_na fadd fzero input len =
     for_loop 0 (int_of_size_t len) 1 (\<lambda>j res. fadd res (input j)) fzero"

definition add_to_all_na ::
  "('f \<Rightarrow> 'f \<Rightarrow> 'f) \<Rightarrow> 'f ptr \<Rightarrow> nat \<Rightarrow> 'f \<Rightarrow> 'f ptr \<Rightarrow> 'f ptr" where
  "add_to_all_na fadd input len value0 output =
     for_loop 0 (int_of_size_t len) 1 (\<lambda>j output. output(j := fadd (input j) value0)) output"

section \<open>AVX and AVX2 routines\<close>

text \<open>
  \<open>startIndex\<close> is the value of \<^verbatim>\<open>align_complement_*\<close> for the input pointer, a function
  of \<^verbatim>\<open>simd/memory.h\<close>, which is not among the sources: it is a parameter. 256-bit
  registers hold 8 lanes of 32 bits or 16 lanes of 16 bits.
\<close>

text \<open>\<^verbatim>\<open>_mm256_packs_epi32\<close>: signed saturation to 16 bits, each 128-bit half on its own.\<close>

definition packs_epi32 :: "int32_t \<Rightarrow> int16_t" where
  "packs_epi32 x =
     (if sint x < - 32768 then 0x8000 else if 32767 < sint x then 0x7FFF else ucast x)"

definition mm256_packs_epi32 :: "int32_t list \<Rightarrow> int32_t list \<Rightarrow> int16_t list" where
  "mm256_packs_epi32 a b = map packs_epi32 (take 4 a @ take 4 b @ drop 4 a @ drop 4 b)"

text \<open>\<^verbatim>\<open>_mm256_unpacklo_epi16\<close> and \<^verbatim>\<open>_mm256_unpackhi_epi16\<close>: the 16-bit lanes of the low
  (high) half of each 128-bit half of \<open>a\<close> and \<open>b\<close>, interleaved.\<close>

fun interleave :: "'a list \<Rightarrow> 'a list \<Rightarrow> 'a list" where
  "interleave (x # xs) (y # ys) = x # y # interleave xs ys"
| "interleave xs ys = []"

definition mm256_unpacklo_epi16 :: "int16_t list \<Rightarrow> int16_t list \<Rightarrow> int16_t list" where
  "mm256_unpacklo_epi16 a b =
     interleave (take 4 a) (take 4 b) @ interleave (take 4 (drop 8 a)) (take 4 (drop 8 b))"

definition mm256_unpackhi_epi16 :: "int16_t list \<Rightarrow> int16_t list \<Rightarrow> int16_t list" where
  "mm256_unpackhi_epi16 a b =
     interleave (take 4 (drop 4 a)) (take 4 (drop 4 b)) @ interleave (drop 12 a) (drop 12 b)"

text \<open>A register of 16-bit lanes stored to an \<^verbatim>\<open>int32_t\<close> buffer: little-endian pairs.\<close>

fun epi32_of_epi16 :: "int16_t list \<Rightarrow> int32_t list" where
  "epi32_of_epi16 (lo # hi # v) = (ucast lo OR push_bit 16 (ucast hi)) # epi32_of_epi16 v"
| "epi32_of_epi16 v = []"

definition mm256_add_ps :: "('f \<Rightarrow> 'f \<Rightarrow> 'f) \<Rightarrow> 'f list \<Rightarrow> 'f list \<Rightarrow> 'f list" where
  "mm256_add_ps fadd a b = map2 fadd a b"

definition mm256_mul_ps :: "('f \<Rightarrow> 'f \<Rightarrow> 'f) \<Rightarrow> 'f list \<Rightarrow> 'f list \<Rightarrow> 'f list" where
  "mm256_mul_ps fmul a b = map2 fmul a b"

definition mm256_hadd_ps :: "('f \<Rightarrow> 'f \<Rightarrow> 'f) \<Rightarrow> 'f list \<Rightarrow> 'f list \<Rightarrow> 'f list" where
  "mm256_hadd_ps fadd a b =
     [fadd (a ! 0) (a ! 1), fadd (a ! 2) (a ! 3), fadd (b ! 0) (b ! 1), fadd (b ! 2) (b ! 3),
      fadd (a ! 4) (a ! 5), fadd (a ! 6) (a ! 7), fadd (b ! 4) (b ! 5), fadd (b ! 6) (b ! 7)]"

text \<open>\<^verbatim>\<open>_mm256_get_ps(v, k)\<close>, a macro of \<^verbatim>\<open>simd/instruction_set.h\<close> (not among the
  sources), read as lane \<open>k\<close> of \<open>v\<close>.\<close>

definition mm256_get_ps :: "'f list \<Rightarrow> nat \<Rightarrow> 'f" where
  "mm256_get_ps v k = v ! k"

definition float_to_int32_avx2 :: "int \<Rightarrow> float ptr \<Rightarrow> nat \<Rightarrow> int32_t ptr \<Rightarrow> int32_t ptr" where
  "float_to_int32_avx2 startIndex data len res =
     (let ilength = int_of_size_t len;
          res = for_loop 0 startIndex 1
                  (\<lambda>i res. res(i := scast (float_to_int16_t (data i)))) res;
          res = for_loop startIndex (ilength - 7) 8
                  (\<lambda>i res. let fVec = vload 8 data i;
                                intVec = map float_to_int32_t fVec
                            in vstore res i intVec) res
      in for_loop (startIndex + ((ilength - startIndex) AND NOT 7)) ilength 1
           (\<lambda>i res. res(i := float_to_int32_t (data i))) res)"

definition int16_to_int32_avx2 :: "int \<Rightarrow> int16_t ptr \<Rightarrow> nat \<Rightarrow> int32_t ptr \<Rightarrow> int32_t ptr" where
  "int16_to_int32_avx2 startIndex data len res =
     (let ilength = int_of_size_t len;
          res = for_loop 0 startIndex 1
                  (\<lambda>i res. res(i := float_to_int32_t (int16_t_to_float (data i)))) res;
          res = for_loop startIndex (ilength - 15) 16
                  (\<lambda>i res. let intVec = vload 16 data i;
                                intlo = mm256_unpacklo_epi16 intVec (replicate 16 0);
                                inthi = mm256_unpackhi_epi16 intVec (replicate 16 0);
                                res = vstore res i (epi32_of_epi16 intlo)
                            in vstore res (i + 8) (epi32_of_epi16 inthi)) res
      in for_loop (startIndex + push_bit 4 (drop_bit 4 (ilength - startIndex))) ilength 1
           (\<lambda>i res. res(i := scast (data i))) res)"

definition int32_to_int16_avx2 :: "int \<Rightarrow> int32_t ptr \<Rightarrow> nat \<Rightarrow> int16_t ptr \<Rightarrow> int16_t ptr" where
  "int32_to_int16_avx2 startIndex data len res =
     (let ilength = int_of_size_t len;
          res = for_loop 0 startIndex 1 (\<lambda>i res. res(i := ucast (data i))) res;
          res = for_loop startIndex (ilength - 15) 16
                  (\<lambda>i res. let intVecHi = vload 8 data i;
                                intVecLo = vload 8 data (i + 4);
                                int16Vec = mm256_packs_epi32 intVecHi intVecLo
                            in vstore res i int16Vec) res
      in for_loop (startIndex + push_bit 4 (drop_bit 4 (ilength - startIndex))) ilength 1
           (\<lambda>i res. res(i := ucast (data i))) res)"

text \<open>\<open>resIndex\<close> is \<^verbatim>\<open>align_complement_f32(res)\<close>.\<close>

definition real_multiply_scalar_avx ::
  "('f \<Rightarrow> 'f \<Rightarrow> 'f) \<Rightarrow> int \<Rightarrow> int \<Rightarrow> 'f ptr \<Rightarrow> nat \<Rightarrow> 'f \<Rightarrow> 'f ptr \<Rightarrow> 'f ptr" where
  "real_multiply_scalar_avx fmul startIndex resIndex array len value0 res =
     (let ilength = int_of_size_t len;
          mulVec = replicate 8 value0
      in if startIndex = resIndex then
           (let res = for_loop 0 startIndex 1 (\<lambda>i res. res(i := fmul (array i) value0)) res;
                res = for_loop startIndex (ilength - 7) 8
                        (\<lambda>i res. let vec = vload 8 array i;
                                      vec = mm256_mul_ps fmul vec mulVec
                                  in vstore res i vec) res
            in for_loop (startIndex + ((ilength - startIndex) AND NOT 7)) ilength 1
                 (\<lambda>i res. res(i := fmul (array i) value0)) res)
         else
           (let res = for_loop 0 (ilength - 7) 8
                        (\<lambda>i res. let vec = vload 8 array i;
                                      vec = mm256_mul_ps fmul vec mulVec
                                  in vstore res i vec) res
            in for_loop ((ilength - startIndex) AND NOT 7) ilength 1
                 (\<lambda>i res. res(i := fmul (array i) value0)) res))"

definition sum_elements_avx :: "('f \<Rightarrow> 'f \<Rightarrow> 'f) \<Rightarrow> 'f \<Rightarrow> 'f ptr \<Rightarrow> nat \<Rightarrow> 'f" where
  "sum_elements_avx fadd fzero input len =
     (let ilength = int_of_size_t len;
          accum = replicate 8 fzero;
          accum = for_loop 0 (ilength - 15) 16
                    (\<lambda>j accum. let vec1 = vload 8 input j;
                                    vec2 = vload 8 input (j + 8);
                                    accum = mm256_add_ps fadd accum vec1
                                in mm256_add_ps fadd accum vec2) accum;
          accum = mm256_hadd_ps fadd accum accum;
          accum = mm256_hadd_ps fadd accum accum;
          res = fadd (mm256_get_ps accum 0) (mm256_get_ps accum 4)
      in for_loop (ilength AND NOT 0xF) ilength 1 (\<lambda>j res. fadd res (input j)) res)"


section \<open>NEON routines\<close>

text \<open>128-bit registers: 8 lanes of 16 bits, 4 lanes of 32 bits or 2 lanes of 64 bits.\<close>

definition vceqq_u16 :: "uint16_t list \<Rightarrow> uint16_t list \<Rightarrow> uint16_t list" where
  "vceqq_u16 a b = map2 (\<lambda>x y. if x = y then 0xFFFF else 0) a b"

definition vandq_u16 :: "uint16_t list \<Rightarrow> uint16_t list \<Rightarrow> uint16_t list" where
  "vandq_u16 a b = map2 (\<lambda>x y. x AND y) a b"

definition vorrq_u16 :: "uint16_t list \<Rightarrow> uint16_t list \<Rightarrow> uint16_t list" where
  "vorrq_u16 a b = map2 (\<lambda>x y. x OR y) a b"

definition vbicq_u16 :: "uint16_t list \<Rightarrow> uint16_t list \<Rightarrow> uint16_t list" where
  "vbicq_u16 a b = map2 (\<lambda>x y. x AND NOT y) a b"

definition vsubq_u16 :: "uint16_t list \<Rightarrow> uint16_t list \<Rightarrow> uint16_t list" where
  "vsubq_u16 a b = map2 (\<lambda>x y. x - y) a b"

definition vclzq_u16 :: "uint16_t list \<Rightarrow> uint16_t list" where
  "vclzq_u16 a = map (\<lambda>x. word_of_nat (16 - bit_length (unat x))) a"

text \<open>\<^verbatim>\<open>vshlq_u16\<close>: each lane shifted left by the signed amount of the same lane of \<open>b\<close>
  (right when it is negative).\<close>

definition vshlq_u16 :: "uint16_t list \<Rightarrow> int16_t list \<Rightarrow> uint16_t list" where
  "vshlq_u16 a b =
     map2 (\<lambda>x s. if 0 \<le> sint s then push_bit (nat (sint s)) x
                  else drop_bit (nat (- sint s)) x) a b"

definition vorrq_u32 :: "uint32_t list \<Rightarrow> uint32_t list \<Rightarrow> uint32_t list" where
  "vorrq_u32 a b = map2 (\<lambda>x y. x OR y) a b"

definition vaddq_u32 :: "uint32_t list \<Rightarrow> uint32_t list \<Rightarrow> uint32_t list" where
  "vaddq_u32 a b = map2 (\<lambda>x y. x + y) a b"

definition vshlq_n_u32 :: "uint32_t list \<Rightarrow> nat \<Rightarrow> uint32_t list" where
  "vshlq_n_u32 a n = map (push_bit n) a"

definition vmovl_u16 :: "uint16_t list \<Rightarrow> uint32_t list" where
  "vmovl_u16 a = map ucast a"

definition vmovl_s16 :: "int16_t list \<Rightarrow> int32_t list" where
  "vmovl_s16 a = map scast a"

definition vget_low_u16 :: "uint16_t list \<Rightarrow> uint16_t list" where
  "vget_low_u16 a = take 4 a"

definition vget_high_u16 :: "uint16_t list \<Rightarrow> uint16_t list" where
  "vget_high_u16 a = drop 4 a"

text \<open>\<^verbatim>\<open>vpaddlq_u16\<close> and \<^verbatim>\<open>vpaddlq_u32\<close>: adjacent lanes added into lanes twice as wide.\<close>

fun vpaddlq_u16 :: "uint16_t list \<Rightarrow> uint32_t list" where
  "vpaddlq_u16 (x # y # v) = (ucast x + ucast y) # vpaddlq_u16 v"
| "vpaddlq_u16 v = []"

fun vpaddlq_u32 :: "uint32_t list \<Rightarrow> uint64_t list" where
  "vpaddlq_u32 (x # y # v) = (ucast x + ucast y) # vpaddlq_u32 v"
| "vpaddlq_u32 v = []"

definition vgetq_lane_u64 :: "uint64_t list \<Rightarrow> nat \<Rightarrow> uint64_t" where
  "vgetq_lane_u64 v k = v ! k"

definition vaddq_f32 :: "('f \<Rightarrow> 'f \<Rightarrow> 'f) \<Rightarrow> 'f list \<Rightarrow> 'f list \<Rightarrow> 'f list" where
  "vaddq_f32 fadd a b = map2 fadd a b"

text \<open>One iteration of the vector loop of the NEON \<^verbatim>\<open>float16_to_float\<close>; each
  \<^verbatim>\<open>continue\<close> ends the iteration.\<close>

definition float16_to_float_neon_iter :: "uint16_t ptr \<Rightarrow> int \<Rightarrow> float ptr \<Rightarrow> float ptr" where
  "float16_to_float_neon_iter data i res =
     (let expMask = replicate 8 0x7c00;
          zerosVec = replicate 8 0;
          intVec = vload 8 data i;
          expVec = vandq_u16 intVec expMask;
          cmpVec = vceqq_u16 expVec zerosVec;
          zeroAdd = vpaddlq_u32 (vpaddlq_u16 cmpVec);
          zero_check = vgetq_lane_u64 zeroAdd 0 + vgetq_lane_u64 zeroAdd 1
      in if zero_check \<noteq> 0 then
           (if zero_check = push_bit 3 0xffff then
              (let tmpVec = vandq_u16 intVec (replicate 8 0x03ff);
                   cmpVec = vceqq_u16 tmpVec zerosVec;
                   zeroAdd = vpaddlq_u32 (vpaddlq_u16 cmpVec);
                   zero_check = vgetq_lane_u64 zeroAdd 0 + vgetq_lane_u64 zeroAdd 1
               in if zero_check = push_bit 3 0xffff then
                    (let signVec = vandq_u16 intVec (replicate 8 0x8000);
                         signlo = vmovl_u16 (vget_low_u16 signVec);
                         signhi = vmovl_u16 (vget_high_u16 signVec);
                         signlo = vshlq_n_u32 signlo 16;
                         signhi = vshlq_n_u32 signhi 16;
                         res = vstore res i signlo
                     in vstore res (i + 4) signhi)
                  else if zero_check = 0 then
                    (let lz = vclzq_u16 tmpVec;
                         lz = vsubq_u16 lz (replicate 8 5);
                         expVec = vsubq_u16 (replicate 8 (127 - 15 + 1)) lz;
                         tmpVec = vshlq_u16 tmpVec lz;
                         tmpVec = vandq_u16 tmpVec (replicate 8 0x03ff);
                         tmplo = vmovl_u16 (vget_low_u16 tmpVec);
                         tmphi = vmovl_u16 (vget_high_u16 tmpVec);
                         tmplo = vshlq_n_u32 tmplo 13;
                         tmphi = vshlq_n_u32 tmphi 13;
                         explo = vmovl_u16 (vget_low_u16 expVec);
                         exphi = vmovl_u16 (vget_high_u16 expVec);
                         explo = vshlq_n_u32 explo 23;
                         exphi = vshlq_n_u32 exphi 23;
                         tmplo = vorrq_u32 tmplo explo;
                         tmphi = vorrq_u32 tmphi exphi;
                         signVec = vandq_u16 intVec (replicate 8 0x8000);
                         signlo = vmovl_u16 (vget_low_u16 signVec);
                         signhi = vmovl_u16 (vget_high_u16 signVec);
                         signlo = vshlq_n_u32 signlo 16;
                         signhi = vshlq_n_u32 signhi 16;
                         tmplo = vorrq_u32 signlo tmplo;
                         tmphi = vorrq_u32 signhi tmplo;
                         res = vstore res i tmplo
                     in vstore res (i + 4) tmphi)
                  else ptr_sub (float16_to_float_na (ptr_add data i) 8 (ptr_add res i)) i)
            else ptr_sub (float16_to_float_na (ptr_add data i) 8 (ptr_add res i)) i)
         else
           (let cmpVec = vceqq_u16 expVec expMask;
                masked1 = vandq_u16 (replicate 8 0x03ff) cmpVec;
                masked2 = vbicq_u16 (replicate 8 0x7fff) cmpVec;
                andVec = vorrq_u16 masked1 masked2;
                tmpVec = vandq_u16 intVec andVec;
                intlo = vmovl_u16 (vget_low_u16 tmpVec);
                inthi = vmovl_u16 (vget_high_u16 tmpVec);
                intlo = vshlq_n_u32 intlo 13;
                inthi = vshlq_n_u32 inthi 13;
                masked1 = vandq_u16 (replicate 8 0x7f80) cmpVec;
                masked2 = vbicq_u16 (replicate 8 0x3800) cmpVec;
                addVec = vorrq_u16 masked1 masked2;
                addlo = vmovl_u16 (vget_low_u16 addVec);
                addhi = vmovl_u16 (vget_high_u16 addVec);
                addlo = vshlq_n_u32 addlo 16;
                addhi = vshlq_n_u32 addhi 16;
                intlo = vaddq_u32 intlo addlo;
                inthi = vaddq_u32 inthi addhi;
                signVec = vandq_u16 intVec (replicate 8 0x8000);
                signlo = vmovl_u16 (vget_low_u16 signVec);
                signhi = vmovl_u16 (vget_high_u16 signVec);
                signlo = vshlq_n_u32 signlo 16;
                signhi = vshlq_n_u32 signhi 16;
                intlo = vorrq_u32 intlo signlo;
                inthi = vorrq_u32 inthi signhi;
                res = vstore res i intlo
            in vstore res (i + 4) inthi))"

definition float16_to_float_neon :: "uint16_t ptr \<Rightarrow> nat \<Rightarrow> float ptr \<Rightarrow> float ptr" where
  "float16_to_float_neon data len res =
     (let ilength = int_of_size_t len;
          res = for_loop 0 (ilength - 7) 8 (float16_to_float_neon_iter data) res;
          offset = ilength AND NOT 0x7
      in ptr_sub (float16_to_float_na (ptr_add data offset) (size_t_of_int (ilength - offset))
                    (ptr_add res offset)) offset)"

definition int16_to_int32_neon :: "int16_t ptr \<Rightarrow> nat \<Rightarrow> int32_t ptr \<Rightarrow> int32_t ptr" where
  "int16_to_int32_neon data len res =
     (let ilength = int_of_size_t len;
          res = for_loop 0 (ilength - 3) 4
                  (\<lambda>i res. let intVec = vload 4 data i;
                                extIntVec = vmovl_s16 intVec
                            in vstore res i extIntVec) res
      in for_loop (ilength AND NOT 0x3) ilength 1
           (\<lambda>i res. res(i := float_to_int32_t (int16_t_to_float (data i)))) res)"

definition add_to_all_neon ::
  "('f \<Rightarrow> 'f \<Rightarrow> 'f) \<Rightarrow> 'f ptr \<Rightarrow> nat \<Rightarrow> 'f \<Rightarrow> 'f ptr \<Rightarrow> 'f ptr" where
  "add_to_all_neon fadd input len value0 output =
     (let ilength = int_of_size_t len;
          add_vec = replicate 4 value0;
          output = for_loop 0 (ilength - 7) 8
                     (\<lambda>j output. let vec1 = vload 4 input j;
                                      vec2 = vload 4 input (j + 4);
                                      vec1 = vaddq_f32 fadd add_vec vec1;
                                      vec2 = vaddq_f32 fadd add_vec vec2;
                                      output = vstore output j vec1
                                  in vstore output (j + 8) vec2) output
      in for_loop (ilength AND NOT 0x7) ilength 1
           (\<lambda>j output. output(j := fadd (input j) value0)) output)"


section \<open>Functions without SIMD instructions\<close>

text \<open>
  \<^verbatim>\<open>next_highest_power_of_2(int value)\<close>: decrement, smear the highest set bit to the
  right with five shift-or steps, increment. \<^verbatim>\<open>>>\<close> on \<^verbatim>\<open>int\<close> is the arithmetic shift.
\<close>

definition next_highest_power_of_2 :: "int32_t \<Rightarrow> int32_t" where
  "next_highest_power_of_2 value0 =
     (let v = value0 - 1;
          v = v OR signed_drop_bit 1 v;
          v = v OR signed_drop_bit 2 v;
          v = v OR signed_drop_bit 4 v;
          v = v OR signed_drop_bit 8 v;
          v = v OR signed_drop_bit 16 v
      in v + 1)"

text \<open>Bit \<open>n\<close> of \<open>a\<close> is set exactly when one of the bits \<open>n, \<dots>, n + c\<close> of \<open>x\<close> is.\<close>

definition smeared :: "nat \<Rightarrow> int32_t \<Rightarrow> int32_t \<Rightarrow> bool" where
  "smeared c a x \<longleftrightarrow> (\<forall>n. bit a n \<longleftrightarrow> (\<exists>j\<le>c. bit x (n + j)))"


section \<open>Loops, loads and stores\<close>

lemma int_of_size_t_small: "n < 2 ^ 31 \<Longrightarrow> int_of_size_t n = int n"
  unfolding int_of_size_t_def
  by (rule signed_take_bit_int_eq_self) (simp_all add: le_trans [of _ 0])

lemma for_loop_stop: "\<not> i < n \<Longrightarrow> for_loop i n step body s = s"
  by (simp add: for_loop.simps)

lemma for_loop_step:
  "i < n \<Longrightarrow> 0 < step \<Longrightarrow> for_loop i n step body s = for_loop (i + step) n step body (body i s)"
  by (subst for_loop.simps) simp

lemma vload_4: "vload 4 p i = [p i, p (i + 1), p (i + 2), p (i + 3)]"
  by (simp add: vload_def upt_rec)

lemma vload_8: "vload 8 p i = [p i, p (i + 1), p (i + 2), p (i + 3), p (i + 4), p (i + 5), p (i + 6), p (i + 7)]"
  by (simp add: vload_def upt_rec)

lemma vload_16: "vload 16 p i = [p i, p (i + 1), p (i + 2), p (i + 3), p (i + 4), p (i + 5), p (i + 6), p (i + 7),
   p (i + 8), p (i + 9), p (i + 10), p (i + 11), p (i + 12), p (i + 13), p (i + 14), p (i + 15)]"
  by (simp add: vload_def upt_rec)


lemma loop_end_step:
  assumes "i < n" "0 < step"
  shows "loop_end (i + step) n step = loop_end i n step"
proof (cases "i + step < n")
  case True
  have "(n - 1 - i) div step = (n - 1 - (i + step)) div step + 1"
    using assms(2) div_add_self2 [of step "n - 1 - (i + step)"] by (simp add: algebra_simps)
  then show ?thesis using True assms by (simp add: loop_end_def algebra_simps)
next
  case False
  then have "(n - 1 - i) div step = 0" using assms by (simp add: div_pos_pos_trivial)
  then show ?thesis using False assms by (simp add: loop_end_def)
qed

lemma for_loop_rule:
  assumes step: "0 < step"
    and init: "P i s"
    and body: "\<And>j t. i \<le> j \<Longrightarrow> j < n \<Longrightarrow> P j t \<Longrightarrow> P (j + step) (body j t)"
  shows "P (loop_end i n step) (for_loop i n step body s)"
  using step init body
proof (induction i n step body s rule: for_loop.induct)
  case (1 i n step body s)
  note step = "1.prems"(1) and init = "1.prems"(2) and body = "1.prems"(3)
  show ?case
  proof (cases "i < n")
    case True
    have "P (loop_end (i + step) n step) (for_loop (i + step) n step body (body i s))"
    proof (rule "1.IH")
      show "i < n \<and> 0 < step" using True step by simp
      show "0 < step" by (rule step)
      show "P (i + step) (body i s)" using body [of i s] init True by simp
      fix j t assume "i + step \<le> j" "j < n" "P j t"
      then show "P (j + step) (body j t)" using body [of j t] step by simp
    qed
    then show ?thesis using True step by (simp add: loop_end_step for_loop_step)
  next
    case False
    then show ?thesis using init by (simp add: loop_end_def for_loop_stop)
  qed
qed

lemma loop_end_ge: "0 < step \<Longrightarrow> i \<le> loop_end i n step"
  by (simp add: loop_end_def pos_imp_zdiv_nonneg_iff)

lemma loop_end_1: "loop_end i n 1 = max i n"
  by (simp add: loop_end_def)

text \<open>A loop whose iteration \<open>j\<close> stores \<open>F k\<close> at each index \<open>k\<close> of \<open>[j, j + step)\<close>.\<close>

lemma for_loop_store:
  assumes step: "0 < step"
    and body: "\<And>j t. body j t = (\<lambda>k. if j \<le> k \<and> k < j + step then F k else t k)"
  shows "for_loop i n step body s = (\<lambda>k. if i \<le> k \<and> k < loop_end i n step then F k else s k)"
proof -
  let ?P = "\<lambda>j t. i \<le> j \<and> t = (\<lambda>k. if i \<le> k \<and> k < j then F k else s k)"
  have "?P (loop_end i n step) (for_loop i n step body s)"
  proof (rule for_loop_rule [where P = ?P, OF step])
    show "?P i s" by (auto simp: fun_eq_iff)
    fix j t assume "i \<le> j" "j < n" "?P j t"
    then show "?P (j + step) (body j t)" using step by (auto simp: body fun_eq_iff)
  qed
  then show ?thesis by simp
qed

lemma for_loop_store_1:
  "for_loop i n 1 (\<lambda>j t. t(j := F j)) s = (\<lambda>k. if i \<le> k \<and> k < n then F k else s k)"
  by (subst for_loop_store [where F = F]) (auto simp: fun_eq_iff loop_end_1)

lemma replicate_4: "replicate 4 x = [x, x, x, x]"
  by (simp add: eval_nat_numeral)

lemma replicate_8: "replicate 8 x = [x, x, x, x, x, x, x, x]"
  by (simp add: eval_nat_numeral)

lemma and_not_mask_int: "(x::int) AND NOT (mask n) = push_bit n (drop_bit n x)"
  by (rule bit_eqI) (auto simp: bit_and_iff bit_not_iff bit_mask_iff bit_push_bit_iff bit_drop_bit_eq)

lemma and_not_7: "(x::int) AND NOT 7 = 8 * (x div 8)"
  using and_not_mask_int [of x 3] by (simp add: mask_eq_exp_minus_1 push_bit_eq_mult drop_bit_eq_div)

lemma and_not_15: "(x::int) AND NOT 15 = 16 * (x div 16)"
  using and_not_mask_int [of x 4] by (simp add: mask_eq_exp_minus_1 push_bit_eq_mult drop_bit_eq_div)

lemma and_not_3: "(x::int) AND NOT 3 = 4 * (x div 4)"
  using and_not_mask_int [of x 2] by (simp add: mask_eq_exp_minus_1 push_bit_eq_mult drop_bit_eq_div)

lemma shift_4: "push_bit 4 (drop_bit 4 (x::int)) = 16 * (x div 16)"
  by (simp add: push_bit_eq_mult drop_bit_eq_div)

lemma size_t_of_int_0: "size_t_of_int 0 = 0"
  by (simp add: size_t_of_int_def)

lemma ptr_sub_add: "ptr_sub (ptr_add p off) off = p"
  by (simp add: ptr_sub_def ptr_add_def)

lemma float16_to_float_na_0: "float16_to_float_na data 0 res = res"
  by (simp add: float16_to_float_na_def for_loop_stop)


section \<open>The scalar loops in closed form\<close>

lemma int32_to_int16_na_eq:
  "int32_to_int16_na data len res = (\<lambda>k. if 0 \<le> k \<and> k < int len then ucast (data k) else res k)"
  unfolding int32_to_int16_na_def by (rule for_loop_store_1)

lemma int16_to_int32_na_eq:
  "int16_to_int32_na data len res = (\<lambda>k. if 0 \<le> k \<and> k < int len then scast (data k) else res k)"
  unfolding int16_to_int32_na_def by (rule for_loop_store_1)

lemma float_to_int32_na_eq:
  "float_to_int32_na data len res = (\<lambda>k. if 0 \<le> k \<and> k < int len then float_to_int32_t (data k) else res k)"
  unfolding float_to_int32_na_def by (rule for_loop_store_1)

lemma float16_to_float_na_eq:
  "float16_to_float_na data len res = (\<lambda>k. if 0 \<le> k \<and> k < int len then float16_decode (data k) else res k)"
  unfolding float16_to_float_na_def by (rule for_loop_store_1)

lemma add_to_all_na_eq:
  "add_to_all_na fadd input len v output =
     (\<lambda>k. if 0 \<le> k \<and> k < int_of_size_t len then fadd (input k) v else output k)"
  unfolding add_to_all_na_def by (rule for_loop_store_1)


section \<open>The 32-bit to 16-bit conversion\<close>

lemma int32_to_int16_avx2_window:
  "int32_to_int16_avx2 0 data 16 res =
     vstore res 0 (map packs_epi32
       [data 0, data 1, data 2, data 3, data 4, data 5, data 6, data 7,
        data 4, data 5, data 6, data 7, data 8, data 9, data 10, data 11])"
  by (simp add: int32_to_int16_avx2_def int_of_size_t_small for_loop_step for_loop_stop vload_8
        mm256_packs_epi32_def Let_def)


text \<open>
  C1. On the input \<open>0, 1, \<dots>, 15\<close> (16 elements, \<open>startIndex = 0\<close>) the AVX2
  \<^verbatim>\<open>int32_to_int16\<close> stores the elements 4 to 7 a second time at the indices 8 to 11 and
  the elements 8 to 11 at the indices 12 to 15; the elements 12 to 15 are never read.
  \<^verbatim>\<open>int32_to_int16_na\<close> stores element \<open>i\<close> at every index \<open>i\<close>.
\<close>

theorem int32_to_int16_avx2_repeats_window: 
  "map (int32_to_int16_avx2 0 (\<lambda>k. word_of_int k) 16 (\<lambda>_. 0)) [0, 1, 2, 3, 4, 5, 6, 7, 8, 9, 10, 11, 12, 13, 14, 15]
     = [0, 1, 2, 3, 4, 5, 6, 7, 4, 5, 6, 7, 8, 9, 10, 11] \<and>
   map (int32_to_int16_na (\<lambda>k. word_of_int k) 16 (\<lambda>_. 0)) [0, 1, 2, 3, 4, 5, 6, 7, 8, 9, 10, 11, 12, 13, 14, 15]
     = [0, 1, 2, 3, 4, 5, 6, 7, 8, 9, 10, 11, 12, 13, 14, 15]"
  by (simp add: int32_to_int16_avx2_window int32_to_int16_na_eq vstore_def packs_epi32_def)


section \<open>The float to 32-bit conversion\<close>

lemma float_to_int32_avx2_prefix_only:
  "float_to_int32_avx2 1 data (Suc 0) res = res(0 := scast (float_to_int16_t (data 0)))"
  by (simp add: float_to_int32_avx2_def int_of_size_t_small for_loop_step for_loop_stop Let_def)

lemma f32_100000: "f32_value 0x47C35000 = 100000"
  by (simp add: f32_value_def f32_units_def f32_sign_def f32_mant_def f32_exp_def f32_frac_def)

lemma cvt_100000: "float_to_int32_t 0x47C35000 = 100000"
  by (simp add: float_to_int32_t_def f32_trunc_def f32_sign_def f32_mant_def f32_exp_def f32_frac_def)

text \<open>
  C2. For the one-element input \<open>100000.0\<close> with \<open>startIndex = 1\<close> the element falls into
  the scalar prefix of the AVX2 \<^verbatim>\<open>float_to_int32\<close>, which casts it to \<^verbatim>\<open>int16_t\<close>: the
  output is -31072, where \<^verbatim>\<open>float_to_int32_na\<close> gives 100000.
\<close>

theorem float_to_int32_avx2_prefix_casts_int16:
  "f32_value 0x47C35000 = 100000 \<and>
   sint (float_to_int32_avx2 1 (\<lambda>_. 0x47C35000) 1 (\<lambda>_. 0) 0) = - 31072 \<and>
   sint (float_to_int32_na (\<lambda>_. 0x47C35000) 1 (\<lambda>_. 0) 0) = 100000"
  by (simp add: f32_100000 float_to_int32_avx2_prefix_only float_to_int32_na_eq cvt_100000 float_to_int16_t_def)

section \<open>The vectorised half-precision decoder\<close>

lemma bit_length_1: "bit_length (Suc 0) = Suc 0"
  by (subst bit_length.simps, subst bit_length.simps) simp
lemma bit_length_2: "bit_length 2 = 2"
  by (subst bit_length.simps, subst bit_length.simps, subst bit_length.simps) simp

lemma neon_iter_subnormals:
  "float16_to_float_neon_iter (\<lambda>k. if k < 4 then 1 else 2) 0 res =
     vstore (vstore res 0 [0x33800000, 0x33800000, 0x33800000, 0x33800000])
        4 [0x33800000, 0x33800000, 0x33800000, 0x33800000]"
  by (simp add: float16_to_float_neon_iter_def Let_def vload_8 vandq_u16_def vceqq_u16_def vclzq_u16_def vsubq_u16_def vshlq_u16_def
       bit_length_1 bit_length_2 vgetq_lane_u64_def vmovl_u16_def vget_low_u16_def vget_high_u16_def vshlq_n_u32_def
       vorrq_u32_def replicate_8)

lemma float16_to_float_neon_8:
  "float16_to_float_neon data 8 res = float16_to_float_neon_iter data 0 res"
  by (simp add: float16_to_float_neon_def int_of_size_t_small for_loop_step for_loop_stop Let_def
        and_not_7 size_t_of_int_0 float16_to_float_na_0 ptr_sub_add)

lemma decode_1: "float16_decode 1 = 0x33800000"
  by (simp add: float16_decode_def builtin_clz_def bit_length_1)

lemma decode_2: "float16_decode 2 = 0x34000000"
  by (simp add: float16_decode_def builtin_clz_def bit_length_2)

text \<open>
  C3. For the 8 subnormal inputs \<^verbatim>\<open>1, 1, 1, 1, 2, 2, 2, 2\<close> the NEON
  \<^verbatim>\<open>float16_to_float\<close> takes its all-subnormal path and stores the decoded low half
  (\<open>2 ^ -24\<close>) in the high half too; \<^verbatim>\<open>float16_to_float_na\<close> decodes the high half to
  \<open>2 ^ -23\<close>.
\<close>

theorem float16_to_float_neon_subnormal_high_half:
  "map (float16_to_float_neon (\<lambda>k. if k < 4 then 1 else 2) 8 (\<lambda>_. 0)) [0, 1, 2, 3, 4, 5, 6, 7]
     = [0x33800000, 0x33800000, 0x33800000, 0x33800000, 0x33800000, 0x33800000, 0x33800000, 0x33800000] \<and>
   map (float16_to_float_na (\<lambda>k. if k < 4 then 1 else 2) 8 (\<lambda>_. 0)) [0, 1, 2, 3, 4, 5, 6, 7]
     = [0x33800000, 0x33800000, 0x33800000, 0x33800000, 0x34000000, 0x34000000, 0x34000000, 0x34000000]"
  by (simp add: float16_to_float_neon_8 neon_iter_subnormals float16_to_float_na_eq vstore_def
        decode_1 decode_2)

section \<open>Broadcast add\<close>

lemma add_to_all_neon_8:
  "add_to_all_neon fadd input 8 v output =
     vstore (vstore output 0 [fadd v (input 0), fadd v (input 1), fadd v (input 2), fadd v (input 3)])
        8 [fadd v (input 4), fadd v (input 5), fadd v (input 6), fadd v (input 7)]"
  by (simp add: add_to_all_neon_def int_of_size_t_small for_loop_step for_loop_stop Let_def vload_4
       vaddq_f32_def replicate_4)

lemma f32_add_1_1: "f32_add 0x3F800000 0x3F800000 = 0x40000000"
  by (simp add: f32_add_def f32_is_nan_def f32_is_inf_def f32_exp_def f32_frac_def f32_units_def
        f32_mant_def f32_sign_def f32_pack_def f32_round_def bit_length.simps Let_def)

text \<open>
  C5. For 8 elements \<open>1.0\<close>, the value \<open>1.0\<close> and an output buffer of zeros, the NEON
  \<^verbatim>\<open>add_to_all\<close> leaves the outputs 4 to 7 as they were and writes the sums of the
  inputs 4 to 7 to the indices 8 to 11, past the end; \<^verbatim>\<open>add_to_all_na\<close> writes \<open>2.0\<close> to
  all 8 outputs and nothing else.
\<close>

theorem add_to_all_neon_store_offset:
  "map (add_to_all_neon f32_add (\<lambda>_. 0x3F800000) 8 0x3F800000 (\<lambda>_. 0)) [0, 1, 2, 3, 4, 5, 6, 7, 8, 9, 10, 11]
     = [0x40000000, 0x40000000, 0x40000000, 0x40000000, 0, 0, 0, 0,
        0x40000000, 0x40000000, 0x40000000, 0x40000000] \<and>
   map (add_to_all_na f32_add (\<lambda>_. 0x3F800000) 8 0x3F800000 (\<lambda>_. 0)) [0, 1, 2, 3, 4, 5, 6, 7, 8, 9, 10, 11]
     = [0x40000000, 0x40000000, 0x40000000, 0x40000000, 0x40000000, 0x40000000, 0x40000000, 0x40000000,
        0, 0, 0, 0]"
  by (simp add: add_to_all_neon_8 add_to_all_na_eq int_of_size_t_small vstore_def f32_add_1_1)

section \<open>The 16-bit to 32-bit conversion\<close>

lemma unpacklo_zero: "mm256_unpacklo_epi16 [a0,a1,a2,a3,a4,a5,a6,a7,a8,a9,a10,a11,a12,a13,a14,a15] (replicate 16 0)
  = [a0,0,a1,0,a2,0,a3,0,a8,0,a9,0,a10,0,a11,0]"
  by (simp add: mm256_unpacklo_epi16_def eval_nat_numeral)

lemma unpackhi_zero: "mm256_unpackhi_epi16 [a0,a1,a2,a3,a4,a5,a6,a7,a8,a9,a10,a11,a12,a13,a14,a15] (replicate 16 0)
  = [a4,0,a5,0,a6,0,a7,0,a12,0,a13,0,a14,0,a15,0]"
  by (simp add: mm256_unpackhi_epi16_def eval_nat_numeral)

lemma int16_to_int32_avx2_window:
  "int16_to_int32_avx2 0 data 16 res =
     vstore (vstore res 0 (map ucast [data 0, data 1, data 2, data 3, data 8, data 9, data 10, data 11]))
        8 (map ucast [data 4, data 5, data 6, data 7, data 12, data 13, data 14, data 15])"
  by (simp add: int16_to_int32_avx2_def int_of_size_t_small for_loop_step for_loop_stop vload_16
        unpacklo_zero unpackhi_zero Let_def)

text \<open>
  C10. On the input \<open>0, 1, \<dots>, 15\<close> (16 elements, \<open>startIndex = 0\<close>) the vector body
  of the AVX2 \<^verbatim>\<open>int16_to_int32\<close> stores the elements in the order
  \<open>0..3, 8..11, 4..7, 12..15\<close>, and it extends the element \<^verbatim>\<open>0x8000\<close> (-32768) with zeros
  to 32768; \<^verbatim>\<open>int16_to_int32_na\<close> keeps the order and extends the sign.
\<close>

theorem int16_to_int32_avx2_zero_extends:
  "map (int16_to_int32_avx2 0 (\<lambda>k. word_of_int k) 16 (\<lambda>_. 0)) [0, 1, 2, 3, 4, 5, 6, 7, 8, 9, 10, 11, 12, 13, 14, 15]
     = [0, 1, 2, 3, 8, 9, 10, 11, 4, 5, 6, 7, 12, 13, 14, 15] \<and>
   map (int16_to_int32_na (\<lambda>k. word_of_int k) 16 (\<lambda>_. 0)) [0, 1, 2, 3, 4, 5, 6, 7, 8, 9, 10, 11, 12, 13, 14, 15]
     = [0, 1, 2, 3, 4, 5, 6, 7, 8, 9, 10, 11, 12, 13, 14, 15] \<and>
   int16_to_int32_avx2 0 (\<lambda>k. 0x8000) 16 (\<lambda>_. 0) 0 = 0x00008000 \<and>
   int16_to_int32_na (\<lambda>k. 0x8000) 16 (\<lambda>_. 0) 0 = 0xFFFF8000"
  by (simp add: int16_to_int32_avx2_window int16_to_int32_na_eq vstore_def)


section \<open>Binary32 arithmetic on small integers\<close>

lemma bit_length_floorlog: "bit_length n = floorlog 2 n"
proof (induction n rule: bit_length.induct)
  case (1 n)
  show ?case
  proof (cases "n = 0")
    case True then show ?thesis by (simp add: bit_length.simps floorlog_def)
  next
    case False
    then have "bit_length n = Suc (bit_length (n div 2))" by (subst bit_length.simps) simp
    also have "\<dots> = Suc (floorlog 2 (n div 2))" using 1 False by simp
    also have "\<dots> = floorlog 2 n" using False by (subst (2) compute_floorlog) simp
    finally show ?thesis .
  qed
qed

lemma bit_length_le_iff: "bit_length n \<le> k \<longleftrightarrow> n < 2 ^ k"
  by (simp add: bit_length_floorlog floorlog_le_iff)

lemma bit_length_bounds: "0 < n \<Longrightarrow> 2 ^ (bit_length n - 1) \<le> n \<and> n < 2 ^ bit_length n"
  using floorlog_bounds [of n 2] by (simp add: bit_length_floorlog)

lemma bit_length_pos: "0 < n \<Longrightarrow> 0 < bit_length n"
  by (subst bit_length.simps) simp

lemma bit_length_shift: "0 < n \<Longrightarrow> bit_length (n * 2 ^ k) = bit_length n + k"
  by (simp add: bit_length_floorlog)

text \<open>The fields of a packed float.\<close>

lemma unat_f32_pack:
  assumes "mag < 2 ^ 31"
  shows "unat (f32_pack s mag) = (if s then 2 ^ 31 else 0) + mag"
proof -
  have b: "((if s then 2 ^ 31 else 0) + mag) mod 2 ^ LENGTH(32) = (if s then 2 ^ 31 else 0) + mag"
    using assms by simp
  show ?thesis unfolding f32_pack_def unat_of_nat by (rule b)
qed

lemma f32_pack_fields:
  assumes "mag < 2 ^ 31"
  shows "f32_sign (f32_pack s mag) = s"
    and "f32_exp (f32_pack s mag) = mag div 2 ^ 23"
    and "f32_frac (f32_pack s mag) = mag mod 2 ^ 23"
proof -
  note u = unat_f32_pack [OF assms]
  show "f32_sign (f32_pack s mag) = s" using assms by (simp add: f32_sign_def u)
  have d: "mag div 2 ^ 23 < 2 ^ 8" using assms by (simp add: less_mult_imp_div_less)
  have "(2 ^ 31 + mag) div 2 ^ 23 = 2 ^ 8 + mag div 2 ^ 23"
    by (simp add: div_add1_eq [of "2 ^ 31" mag "2 ^ 23"])
  then show "f32_exp (f32_pack s mag) = mag div 2 ^ 23"
    using d by (simp add: f32_exp_def u)
  have "(2 ^ 31 + mag) mod 2 ^ 23 = mag mod 2 ^ 23"
    using mod_mult_self3 [of 256 "2 ^ 23" mag] by simp
  then show "f32_frac (f32_pack s mag) = mag mod 2 ^ 23"
    by (simp add: f32_frac_def u)
qed

lemma bit_length_24: "2 ^ 23 \<le> q \<Longrightarrow> q < 2 ^ 24 \<Longrightarrow> bit_length q = 24"
  using bit_length_le_iff [of q 24] bit_length_le_iff [of q 23] by simp

lemma f32_round_exact:
  assumes "2 ^ 23 \<le> q" "q < 2 ^ 24" "e < 254"
  shows "f32_round (q * 2 ^ e) 0 = e * 2 ^ 23 + q"
proof -
  have q0: "0 < q" using assms(1) by (simp add: Suc_le_eq less_le_trans [of 0 "2 ^ 23"])
  have bl: "bit_length (q * 2 ^ e) = 24 + e"
    using bit_length_shift [OF q0, of e] bit_length_24 [OF assms(1,2)] by simp
  have "e * 2 ^ 23 \<le> 253 * (2 ^ 23 :: nat)" using assms(3) by simp
  then have "e * 2 ^ 23 + q < 0x7F800000" using assms(2) by simp
  then show ?thesis by (simp add: f32_round_def bl Let_def)
qed

lemma f32_pack_exact:
  assumes "2 ^ 23 \<le> q" "q < 2 ^ 24" "e < 254"
  shows "f32_sign (f32_pack s (e * 2 ^ 23 + q)) = s"
    and "f32_exp (f32_pack s (e * 2 ^ 23 + q)) = e + 1"
    and "f32_mant (f32_pack s (e * 2 ^ 23 + q)) = q * 2 ^ e"
proof -
  have "e * 2 ^ 23 \<le> 253 * (2 ^ 23 :: nat)" using assms(3) by simp
  then have m: "e * 2 ^ 23 + q < 2 ^ 31" using assms(2) by simp
  have qd: "q div 2 ^ 23 = 1" using assms(1,2) by (simp add: div_nat_eqI)
  have qm: "q mod 2 ^ 23 = q - 2 ^ 23" using assms(1,2) by (simp add: mod_if le_mod_geq)
  show "f32_sign (f32_pack s (e * 2 ^ 23 + q)) = s" by (rule f32_pack_fields(1) [OF m])
  show ex: "f32_exp (f32_pack s (e * 2 ^ 23 + q)) = e + 1"
    using qd f32_pack_fields(2) [OF m, of s] by simp
  have fr: "f32_frac (f32_pack s (e * 2 ^ 23 + q)) = q - 2 ^ 23"
    using qm f32_pack_fields(3) [OF m, of s] by simp
  show "f32_mant (f32_pack s (e * 2 ^ 23 + q)) = q * 2 ^ e"
    using assms(1) ex fr by (simp add: f32_mant_def)
qed

text \<open>Integers below \<open>2 ^ 24\<close> in magnitude are floats.\<close>

lemma f32_normalise:
  assumes "0 < x" "x < 2 ^ 24"
  defines "b \<equiv> bit_length x"
  shows "2 ^ 23 \<le> x * 2 ^ (24 - b)" and "x * 2 ^ (24 - b) < 2 ^ 24"
    and "x * 2 ^ 149 = (x * 2 ^ (24 - b)) * 2 ^ (b + 125)"
proof -
  have b24: "b \<le> 24" using assms(2) by (simp add: b_def bit_length_le_iff)
  have b1: "1 \<le> b" using bit_length_pos [OF assms(1)] by (simp add: b_def)
  have lo: "2 ^ (b - 1) \<le> x" and hi: "x < 2 ^ b"
    using bit_length_bounds [OF assms(1)] by (simp_all add: b_def)
  have "(2::nat) ^ 23 = 2 ^ (b - 1) * 2 ^ (24 - b)"
    using b24 b1 by (simp flip: power_add)
  also have "\<dots> \<le> x * 2 ^ (24 - b)" using lo by simp
  finally show "2 ^ 23 \<le> x * 2 ^ (24 - b)" .
  have "x * 2 ^ (24 - b) < 2 ^ b * 2 ^ (24 - b)" using hi by simp
  also have "\<dots> = 2 ^ 24" using b24 by (simp flip: power_add)
  finally show "x * 2 ^ (24 - b) < 2 ^ 24" .
  have "(2::nat) ^ 149 = 2 ^ (24 - b) * 2 ^ (b + 125)"
    using b24 by (simp flip: power_add)
  then show "x * 2 ^ 149 = (x * 2 ^ (24 - b)) * 2 ^ (b + 125)" by (simp add: mult.assoc)
qed

lemma f32_of_int_fields:
  assumes "z \<noteq> 0" "\<bar>z\<bar> < 2 ^ 24"
  shows "f32_sign (f32_of_int z) = (z < 0)"
    and "f32_exp (f32_of_int z) = bit_length (nat \<bar>z\<bar>) + 126"
    and "f32_mant (f32_of_int z) = nat \<bar>z\<bar> * 2 ^ 149"
proof -
  define x where "x = nat \<bar>z\<bar>"
  define b where "b = bit_length x"
  have x: "0 < x" "x < 2 ^ 24" using assms by (simp_all add: x_def)
  note n = f32_normalise [OF x, folded b_def]
  have b24: "b \<le> 24" using x(2) by (simp add: b_def bit_length_le_iff)
  then have e: "b + 125 < 254" by simp
  have r: "f32_round (x * 2 ^ 149) 0 = (b + 125) * 2 ^ 23 + x * 2 ^ (24 - b)"
    using f32_round_exact [OF n(1,2) e] by (simp only: n(3))
  have eq: "f32_of_int z = f32_pack (z < 0) ((b + 125) * 2 ^ 23 + x * 2 ^ (24 - b))"
    using assms(1) r by (simp add: f32_of_int_def flip: x_def)
  show "f32_sign (f32_of_int z) = (z < 0)"
    unfolding eq by (rule f32_pack_exact(1) [OF n(1,2) e])
  show "f32_exp (f32_of_int z) = bit_length (nat \<bar>z\<bar>) + 126"
    unfolding eq using f32_pack_exact(2) [OF n(1,2) e] by (simp add: b_def x_def)
  show "f32_mant (f32_of_int z) = nat \<bar>z\<bar> * 2 ^ 149"
    unfolding eq using f32_pack_exact(3) [OF n(1,2) e] n(3) by (simp add: x_def)
qed

lemma f32_zero_fields: "f32_sign 0 = False" "f32_exp 0 = 0" "f32_mant 0 = 0"
  by (simp_all add: f32_sign_def f32_exp_def f32_mant_def f32_frac_def)

lemma f32_of_int_0: "f32_of_int 0 = 0"
  by (simp add: f32_of_int_def)

lemma f32_units_of_int:
  assumes "\<bar>z\<bar> < 2 ^ 24"
  shows "f32_units (f32_of_int z) = z * 2 ^ 149"
proof (cases "z = 0")
  case True then show ?thesis by (simp add: f32_of_int_0 f32_units_def f32_zero_fields)
next
  case False
  show ?thesis using False f32_of_int_fields(1,3) [OF False assms]
    by (simp add: f32_units_def)
qed

lemma f32_of_int_finite:
  assumes "\<bar>z\<bar> < 2 ^ 24"
  shows "f32_exp (f32_of_int z) < 255"
proof (cases "z = 0")
  case True then show ?thesis by (simp add: f32_of_int_0 f32_zero_fields)
next
  case False
  have "bit_length (nat \<bar>z\<bar>) \<le> 24" using assms by (simp add: bit_length_le_iff)
  then show ?thesis using f32_of_int_fields(2) [OF False assms] by simp
qed

lemma f32_value_of_int: "\<bar>z\<bar> < 2 ^ 24 \<Longrightarrow> f32_value (f32_of_int z) = real_of_int z"
  using f32_units_of_int [of z] by (simp add: f32_value_def)

lemma f32_trunc_of_int:
  assumes "\<bar>z\<bar> < 2 ^ 24"
  shows "f32_trunc (f32_of_int z) = z"
proof (cases "z = 0")
  case True then show ?thesis by (simp add: f32_of_int_0 f32_trunc_def f32_zero_fields)
next
  case False
  show ?thesis using f32_of_int_fields(1,3) [OF False assms]
    by (simp add: f32_trunc_def Let_def)
qed

lemma scaled_int:
  shows "nat \<bar>x * 2 ^ k\<bar> = nat \<bar>x\<bar> * 2 ^ k"
    and "(x * 2 ^ k < 0) = (x < (0::int))"
    and "(x * 2 ^ k = 0) = (x = (0::int))"
  by (simp_all add: abs_mult nat_mult_distrib mult_less_0_iff nat_power_eq)

lemma f32_add_of_int:
  assumes "\<bar>a\<bar> < 2 ^ 24" "\<bar>b\<bar> < 2 ^ 24"
  shows "f32_add (f32_of_int a) (f32_of_int b) = f32_of_int (a + b)"
proof -
  have fin: "\<not> f32_is_nan (f32_of_int a)" "\<not> f32_is_nan (f32_of_int b)"
      "\<not> f32_is_inf (f32_of_int a)" "\<not> f32_is_inf (f32_of_int b)"
    using f32_of_int_finite [OF assms(1)] f32_of_int_finite [OF assms(2)]
    by (simp_all add: f32_is_nan_def f32_is_inf_def)
  have s: "f32_units (f32_of_int a) + f32_units (f32_of_int b) = (a + b) * 2 ^ 149"
    using f32_units_of_int [OF assms(1)] f32_units_of_int [OF assms(2)] by (simp add: algebra_simps)
  show ?thesis
  proof (cases "a + b = 0")
    case True
    have "\<not> (f32_sign (f32_of_int a) \<and> f32_sign (f32_of_int b))"
    proof (cases "a = 0")
      case True then show ?thesis by (simp add: f32_of_int_0 f32_zero_fields)
    next
      case False
      then have b0: "b \<noteq> 0" using True by simp
      show ?thesis
        using True f32_of_int_fields(1) [OF False assms(1)] f32_of_int_fields(1) [OF b0 assms(2)]
        by simp
    qed
    then show ?thesis using True s by (simp add: f32_add_def fin f32_of_int_0)
  next
    case False
    have n: "nat \<bar>(a + b) * 2 ^ 149\<bar> = nat \<bar>a + b\<bar> * 2 ^ 149"
      by (rule scaled_int(1))
    have neg: "(a + b) * 2 ^ 149 < 0 \<longleftrightarrow> a + b < 0"
      by (rule scaled_int(2))
    have nz: "(a + b) * 2 ^ 149 \<noteq> 0"
      using False by (simp only: scaled_int(3) not_False_eq_True)
    have "f32_add (f32_of_int a) (f32_of_int b)
        = f32_pack ((a + b) * 2 ^ 149 < 0) (f32_round (nat \<bar>(a + b) * 2 ^ 149\<bar>) 0)"
      unfolding f32_add_def Let_def s using fin nz by (simp only: if_False)
    also have "\<dots> = f32_pack (a + b < 0) (f32_round (nat \<bar>a + b\<bar> * 2 ^ 149) 0)"
      by (simp only: n neg)
    also have "\<dots> = f32_of_int (a + b)"
      unfolding f32_of_int_def using False by (simp only: if_False)
    finally show ?thesis .
  qed
qed

lemma f32_of_int_1: "f32_of_int 1 = 0x3F800000"
  by (simp add: f32_of_int_def f32_round_def f32_pack_def bit_length.simps Let_def)

lemma f32_of_int_1000: "f32_of_int 1000 = 0x447A0000"
  by (simp add: f32_of_int_def f32_round_def f32_pack_def bit_length.simps Let_def)

lemma f32_values: "f32_value 0 = 0" "f32_value 0x3F800000 = 1" "f32_value 0x447A0000 = 1000"
  by (simp_all add: f32_value_def f32_units_def f32_sign_def f32_mant_def f32_exp_def f32_frac_def)



section \<open>Round trip between \<^verbatim>\<open>int16_t\<close> and \<^verbatim>\<open>float\<close>\<close>

lemma sint16_small: "\<bar>sint (v :: 16 word)\<bar> < 2 ^ 24"
  using sint_ge [of v] sint_lt [of v] by simp

lemma ucast_scast_16: "(ucast (scast (v :: 16 word) :: 32 word) :: 16 word) = v"
  by (rule bit_eqI) (auto simp: bit_ucast_iff bit_signed_iff dest: bit_imp_le_length)

lemma float_to_int32_t_int16: "float_to_int32_t (int16_t_to_float v) = scast v"
proof -
  define z where "z = sint v"
  define w where "w = f32_of_int z"
  have small: "\<bar>z\<bar> < 2 ^ 24" unfolding z_def by (rule sint16_small)
  have e: "f32_exp w \<noteq> 255" using f32_of_int_finite [OF small] by (simp add: w_def)
  have t: "f32_trunc w = z" unfolding w_def by (rule f32_trunc_of_int [OF small])
  have r: "\<not> z < - (2 ^ 31)" "\<not> 2 ^ 31 \<le> z" using small by simp_all
  have "float_to_int32_t w = word_of_int z"
    unfolding float_to_int32_t_def t using e r by (simp only: if_False simp_thms)
  then show ?thesis by (simp add: w_def z_def int16_t_to_float_def)
qed

lemma f32_value_int16: "f32_value (int16_t_to_float v) = real_of_int (sint v)"
  unfolding int16_t_to_float_def by (rule f32_value_of_int [OF sint16_small])

lemma float_to_int16_t_int16: "float_to_int16_t (int16_t_to_float v) = v"
  by (simp add: float_to_int16_t_def float_to_int32_t_int16 ucast_scast_16)

lemma int16_to_float_na_eq:
  "int16_to_float_na data len res = (\<lambda>k. if 0 \<le> k \<and> k < int len then int16_t_to_float (data k) else res k)"
  unfolding int16_to_float_na_def by (rule for_loop_store_1)

lemma float_to_int16_na_eq:
  "float_to_int16_na data len res = (\<lambda>k. if 0 \<le> k \<and> k < int len then float_to_int16_t (data k) else res k)"
  unfolding float_to_int16_na_def by (rule for_loop_store_1)

text \<open>
  C6. For every \<^verbatim>\<open>int16_t\<close> value \<open>v\<close>, the float that \<^verbatim>\<open>int16_to_float_na\<close> stores for
  the one-element array \<open>[v]\<close> has exactly the value \<open>v\<close>, and \<^verbatim>\<open>float_to_int16_na\<close>
  on that float stores \<open>v\<close> again.
\<close>

theorem int16_float_round_trip:
  "float_to_int16_na (int16_to_float_na data 1 res) 1 res' 0 = data 0 \<and>
   f32_value (int16_to_float_na data 1 res 0) = real_of_int (sint (data 0))"
  by (simp add: int16_to_float_na_eq float_to_int16_na_eq float_to_int16_t_int16 f32_value_int16)

section \<open>Decoding half precision\<close>

lemma f32_frac_bits: "f32_frac w = unat (take_bit 23 w)"
  unfolding f32_frac_def unsigned_take_bit_eq by (simp only: take_bit_eq_mod)

lemma f32_exp_bits: "f32_exp w = unat (take_bit 8 (drop_bit 23 w))"
  unfolding f32_exp_def unsigned_take_bit_eq unat_drop_bit_eq
  by (simp only: take_bit_eq_mod drop_bit_eq_div)

lemma f32_sign_bit: "f32_sign w = bit w 31"
proof -
  have "unat w < 2 ^ 32" using unsigned_less [of w] by simp
  then have "unat w div 2 ^ 31 < 2" by (simp add: less_mult_imp_div_less)
  then have "odd (unat w div 2 ^ 31) \<longleftrightarrow> 2 ^ 31 \<le> unat w"
    by (cases "2 ^ 31 \<le> unat w") (auto simp: div_greater_zero_iff less_2_cases_iff)
  moreover have "bit w 31 \<longleftrightarrow> odd (unat w div 2 ^ 31)"
    using bit_unsigned_iff [where ?'a = nat, of w 31] by (simp add: bit_iff_odd)
  ultimately show ?thesis by (simp add: f32_sign_def)
qed

lemma ucast_mask16:
  "(ucast (h :: 16 word) :: 32 word) AND 0x7c00 = ucast (h AND 0x7c00)"
  "(ucast (h :: 16 word) :: 32 word) AND 0x3ff = ucast (h AND 0x3ff)"
  "(ucast (h :: 16 word) :: 32 word) AND 0x8000 = ucast (h AND 0x8000)"
  "(ucast (h :: 16 word) :: 32 word) AND 0x7fff = ucast (h AND 0x7fff)"
  by (simp_all add: unsigned_and_eq)

lemma subnormal_mantissa:
  fixes h :: "16 word"
  assumes "h AND 0x3ff \<noteq> 0"
  shows "0 < unat (h AND 0x3ff)" "unat (h AND 0x3ff) < 2 ^ 10"
    "0 < bit_length (unat (h AND 0x3ff))" "bit_length (unat (h AND 0x3ff)) \<le> 10"
proof -
  have m: "(0x3ff :: 16 word) = mask 10" by (simp add: mask_eq_exp_minus_1)
  show p: "0 < unat (h AND 0x3ff)" using assms by (simp add: unat_gt_0)
  have "unat (h AND 0x3ff) = take_bit 10 (unat h)"
    unfolding m by (simp only: unsigned_take_bit_eq flip: take_bit_eq_mask)
  then show l: "unat (h AND 0x3ff) < 2 ^ 10" by (simp only: take_bit_nat_less_exp)
  show "0 < bit_length (unat (h AND 0x3ff))" by (rule bit_length_pos [OF p])
  show "bit_length (unat (h AND 0x3ff)) \<le> 10" using l by (simp only: bit_length_le_iff)
qed

lemma float16_decode_subnormal:
  fixes h :: "16 word"
  assumes e: "h AND 0x7c00 = 0" and mz: "h AND 0x3ff \<noteq> 0"
  defines "lz \<equiv> 10 - bit_length (unat (h AND 0x3ff))"
  shows "float16_decode h =
     (push_bit 23 (word_of_nat (127 - 15 - lz)) OR
      push_bit 13 (take_bit 10 (push_bit (lz + 1) (ucast (h AND 0x3ff) :: 32 word)))) OR
     push_bit 16 (ucast (h AND 0x8000))"
proof -
  define b where "b = bit_length (unat (h AND 0x3ff))"
  have b: "0 < b" "b \<le> 10" using subnormal_mantissa(3,4) [OF mz] by (simp_all add: b_def)
  have u: "unat (ucast (h AND 0x3ff) :: 32 word) = unat (h AND 0x3ff)"
  proof -
    have "unat (h AND 0x3ff) < 2 ^ 32"
      using unsigned_less [of "h AND 0x3ff", where ?'a = nat] by simp
    then show ?thesis by (simp add: unsigned_ucast_eq take_bit_nat_eq_self)
  qed
  have clz: "builtin_clz (ucast (h AND 0x3ff)) - 16 - 6 = int lz"
    using b by (simp add: builtin_clz_def u lz_def flip: b_def)
  have nz: "(ucast (h AND 0x3ff) :: 32 word) \<noteq> 0" 
  proof
    assume "(ucast (h AND 0x3ff) :: 32 word) = 0"
    then have "unat (ucast (h AND 0x3ff) :: 32 word) = 0" by (simp only: unat_0)
    then show False using mz by (simp only: u unat_eq_0)
  qed
  have w: "(127 - 15 - word_of_int (int lz) :: 32 word) = word_of_nat (127 - 15 - lz)"
    using b by (simp add: lz_def of_nat_diff flip: b_def)
  have n1: "nat (int lz + 1) = lz + 1" by simp
  have a: "y AND 0x3ff = take_bit 10 y" for y :: "32 word"
    by (simp add: take_bit_eq_mask mask_eq_exp_minus_1)
  show ?thesis
    unfolding float16_decode_def ucast_mask16 e Let_def clz w
    by (simp only: ucast_0 simp_thms if_True nz if_False n1 a)
qed
lemma bit_sign16: "bit (h AND 0x8000 :: 16 word) n \<longleftrightarrow> n = 15 \<and> bit h 15"
proof -
  have "bit (0x8000 :: 16 word) n \<longleftrightarrow> n = 15"
    using bit_exp_iff [where ?'a = "16 word", of 15 n] by auto
  then show ?thesis by (auto simp: bit_and_iff)
qed

lemma binary32_fields:
  fixes E X :: "32 word" and h :: "16 word"
  assumes E: "take_bit 8 E = E"
  defines "r \<equiv> (push_bit 23 E OR push_bit 13 (take_bit 10 X)) OR push_bit 16 (ucast (h AND 0x8000))"
  shows "take_bit 23 r = push_bit 13 (take_bit 10 X)"
    and "take_bit 8 (drop_bit 23 r) = E"
    and "bit r 31 = bit h 15"
proof -
  have b: "n < 8" if "bit E n" for n
    using that by (subst (asm) E [symmetric]) (simp add: bit_take_bit_iff)
  show "take_bit 23 r = push_bit 13 (take_bit 10 X)"
    unfolding r_def
    by (rule bit_eqI) (auto simp: bit_take_bit_iff bit_or_iff bit_push_bit_iff bit_ucast_iff bit_sign16)
  show "take_bit 8 (drop_bit 23 r) = E"
    unfolding r_def
    by (rule bit_eqI)
      (auto simp: bit_take_bit_iff bit_drop_bit_eq bit_or_iff bit_push_bit_iff bit_ucast_iff
         bit_sign16 dest: b)
  show "bit r 31 = bit h 15"
    unfolding r_def using b [of 8]
    by (auto simp add: bit_or_iff bit_push_bit_iff bit_take_bit_iff bit_ucast_iff bit_sign16)
qed
lemma unat_ucast_16_32: "unat (ucast (x :: 16 word) :: 32 word) = unat x"
proof -
  have "unat x < 2 ^ 32" using unsigned_less [of x, where ?'a = nat] by simp
  then show ?thesis by (simp add: unsigned_ucast_eq take_bit_nat_eq_self)
qed

lemma float16_decode_subnormal_fields:
  fixes h :: "16 word"
  assumes e: "h AND 0x7c00 = 0" and mz: "h AND 0x3ff \<noteq> 0"
  defines "m \<equiv> unat (h AND 0x3ff)"
  defines "lz \<equiv> 10 - bit_length m"
  shows "f32_sign (float16_decode h) = bit h 15"
    and "f32_exp (float16_decode h) = 127 - 15 - lz"
    and "f32_frac (float16_decode h) = (m * 2 ^ (lz + 1) mod 2 ^ 10) * 2 ^ 13"
proof -
  define E :: "32 word" where "E = word_of_nat (127 - 15 - lz)"
  define X :: "32 word" where "X = push_bit (lz + 1) (ucast (h AND 0x3ff))"
  have r: "float16_decode h
      = (push_bit 23 E OR push_bit 13 (take_bit 10 X)) OR push_bit 16 (ucast (h AND 0x8000))"
    unfolding E_def X_def lz_def m_def by (rule float16_decode_subnormal [OF e mz])
  have uE: "unat E = 127 - 15 - lz"
    unfolding E_def unat_of_nat by simp
  then have "unat E < 2 ^ 8" by simp
  then have "unat (take_bit 8 E) = unat E"
    by (simp only: unsigned_take_bit_eq take_bit_nat_eq_self)
  then have tE: "take_bit 8 E = E" by (simp only: word_unat_eq_iff)
  note f = binary32_fields [OF tE, of X h, folded r]
  show "f32_sign (float16_decode h) = bit h 15" by (simp only: f32_sign_bit f(3))
  show "f32_exp (float16_decode h) = 127 - 15 - lz" by (simp only: f32_exp_bits f(2) uE)
  have b: "bit_length m \<le> 10" "0 < bit_length m"
    using subnormal_mantissa(3,4) [OF mz] by (simp_all add: m_def)
  have "m < 2 ^ bit_length m" using bit_length_le_iff [of m "bit_length m"] by simp
  then have "m * 2 ^ (lz + 1) < 2 ^ bit_length m * 2 ^ (lz + 1)" by simp
  also have "\<dots> = 2 ^ 11" using b by (simp add: lz_def flip: power_add)
  finally have lt: "m * 2 ^ (lz + 1) < 2 ^ 11" .
  then have "m * 2 ^ (lz + 1) < 2 ^ 32" by simp
  then have uX: "unat X = m * 2 ^ (lz + 1)"
    unfolding X_def unsigned_push_bit_eq unat_ucast_16_32
    by (simp add: take_bit_nat_eq_self push_bit_eq_mult m_def)
  have "m * 2 ^ (lz + 1) mod 2 ^ 10 < 2 ^ 10" by simp
  then have "(m * 2 ^ (lz + 1) mod 2 ^ 10) * 2 ^ 13 < 2 ^ 10 * 2 ^ 13" by (simp only: mult_less_cancel2) simp
  then have l: "(m * 2 ^ (lz + 1) mod 2 ^ 10) * 2 ^ 13 < 2 ^ 32" by simp
  have "unat (push_bit 13 (take_bit 10 X)) = take_bit 32 ((m * 2 ^ (lz + 1) mod 2 ^ 10) * 2 ^ 13)"
    unfolding unsigned_push_bit_eq unsigned_take_bit_eq uX
    by (simp only: push_bit_eq_mult take_bit_eq_mod [of 10] len_bit0 len_num1) simp
  also have "\<dots> = (m * 2 ^ (lz + 1) mod 2 ^ 10) * 2 ^ 13"
    using l by (simp only: take_bit_nat_eq_self)
  finally show "f32_frac (float16_decode h) = (m * 2 ^ (lz + 1) mod 2 ^ 10) * 2 ^ 13"
    by (simp only: f32_frac_bits f(1))
qed
lemma float16_decode_subnormal_value:
  fixes h :: "16 word"
  assumes e: "h AND 0x7c00 = 0" and mz: "h AND 0x3ff \<noteq> 0"
  defines "m \<equiv> unat (h AND 0x3ff)"
  defines "lz \<equiv> 10 - bit_length m"
  shows "f32_frac (float16_decode h) = (m * 2 ^ (lz + 1 + 13)) mod 2 ^ 23"
    and "f32_mant (float16_decode h) = m * 2 ^ 125"
    and "f32_value (float16_decode h) = (if bit h 15 then - real m else real m) / 2 ^ 24"
proof -
  note f = float16_decode_subnormal_fields [OF e mz, folded m_def, folded lz_def]
  have b: "bit_length m \<le> 10" "0 < bit_length m" and m: "0 < m"
    using subnormal_mantissa(1,3,4) [OF mz] by (simp_all add: m_def)
  define x where "x = m * 2 ^ (lz + 1)"
  have "2 ^ (bit_length m - 1) * 2 ^ (lz + 1) \<le> x"
    unfolding x_def using bit_length_bounds [OF m] by (simp only: mult_le_mono1)
  moreover have "(2::nat) ^ (bit_length m - 1) * 2 ^ (lz + 1) = 2 ^ 10"
    using b by (simp add: lz_def flip: power_add)
  ultimately have lo: "2 ^ 10 \<le> x" by (simp only:)
  have "x < 2 ^ bit_length m * 2 ^ (lz + 1)"
    unfolding x_def using bit_length_bounds [OF m] by simp
  also have "\<dots> = 2 ^ 11" using b by (simp add: lz_def flip: power_add)
  finally have hi: "x < 2 ^ 11" .
  have xm: "x mod 2 ^ 10 = x - 2 ^ 10" using lo hi by (simp add: le_mod_geq)
  have "(m * 2 ^ (lz + 1 + 13)) mod 2 ^ 23 = (x * 2 ^ 13) mod (2 ^ 10 * 2 ^ 13)"
    by (simp add: x_def power_add mult.assoc)
  also have "\<dots> = (x mod 2 ^ 10) * 2 ^ 13" by (simp only: mod_mult_mult2)
  finally show "f32_frac (float16_decode h) = (m * 2 ^ (lz + 1 + 13)) mod 2 ^ 23"
    by (simp only: f(3) x_def)
  have "f32_frac (float16_decode h) = (x mod 2 ^ 10) * 2 ^ 13" by (simp only: f(3) x_def)
  then have fr: "2 ^ 23 + f32_frac (float16_decode h) = x * 2 ^ 13"
    using lo xm by (simp add: diff_mult_distrib)
  have ex: "f32_exp (float16_decode h) - 1 = 111 - lz" "f32_exp (float16_decode h) \<noteq> 0"
    by (simp_all add: f(2) lz_def)
  have "f32_mant (float16_decode h) = (x * 2 ^ 13) * 2 ^ (111 - lz)"
    unfolding f32_mant_def fr ex(1) using ex(2) by (simp only: if_False)
  also have "\<dots> = m * (2 ^ (lz + 1) * 2 ^ 13 * 2 ^ (111 - lz))" by (simp add: x_def)
  also have "2 ^ (lz + 1) * 2 ^ 13 * 2 ^ (111 - lz) = (2::nat) ^ 125"
    unfolding power_add [symmetric] by (simp add: lz_def)
  finally show mant: "f32_mant (float16_decode h) = m * 2 ^ 125" .
  have "(2::real) ^ 149 = 2 ^ 125 * 2 ^ 24" by simp
  then show "f32_value (float16_decode h) = (if bit h 15 then - real m else real m) / 2 ^ 24"
    by (simp add: f32_value_def f32_units_def f(1) mant)
qed

lemma float16_decode_literals:
  "float16_decode 0x0000 = 0x00000000"
  "float16_decode 0x8000 = 0x80000000"
  "float16_decode 0x0001 = 0x33800000"
  "float16_decode 0x3C00 = 0x3F800000"
  "float16_decode 0x7BFF = 0x477FE000"
  "float16_decode 0x7C00 = 0x7F800000"
  "float16_decode 0xFC00 = 0xFF800000"
  "float16_decode 0x7E00 = 0x7FC00000"
  by (simp_all add: float16_decode_def builtin_clz_def bit_length_1)

lemma binary32_literals:
  "f32_value 0x00000000 = 0" "\<not> f32_sign 0x00000000"
  "f32_value 0x80000000 = 0" "f32_sign 0x80000000"
  "f32_value 0x33800000 = 1 / 2 ^ 24"
  "f32_value 0x3F800000 = 1"
  "f32_value 0x477FE000 = 65504"
  "f32_is_inf 0x7F800000" "\<not> f32_sign 0x7F800000"
  "f32_is_inf 0xFF800000" "f32_sign 0xFF800000"
  "f32_is_nan 0x7FC00000"
  by (simp_all add: f32_value_def f32_units_def f32_sign_def f32_mant_def f32_exp_def f32_frac_def
        f32_is_inf_def f32_is_nan_def)
text \<open>
  C4. \<^verbatim>\<open>float16_to_float_na\<close> stores at every index below the length the decoding of the
  half-precision word \<open>h\<close> read there: \<^verbatim>\<open>0x0000\<close> gives \<open>+0.0\<close>, \<^verbatim>\<open>0x8000\<close> gives
  \<open>-0.0\<close>, \<^verbatim>\<open>0x0001\<close> gives \<open>2 ^ -24\<close> (the smallest positive subnormal of half
  precision), \<^verbatim>\<open>0x3C00\<close> gives \<open>1.0\<close>, \<^verbatim>\<open>0x7BFF\<close> gives \<open>65504.0\<close>, \<^verbatim>\<open>0x7C00\<close> and
  \<^verbatim>\<open>0xFC00\<close> give plus and minus infinity, \<^verbatim>\<open>0x7E00\<close> gives a NaN. For a subnormal
  (exponent bits zero, mantissa \<open>m\<close> not zero) with \<open>leadingZeros\<close> the number of leading
  zeros of the 10-bit mantissa, the result has the sign of \<open>h\<close>, the exponent field
  \<open>127 - 15 - leadingZeros\<close> and as fraction the mantissa shifted left by
  \<open>leadingZeros + 1 + 13\<close> and masked to 23 bits; its value is \<open>m * 2 ^ -24\<close> with the sign
  of \<open>h\<close>.
\<close>

theorem float16_to_float_na_decodes:
  fixes data :: "uint16_t ptr" and res :: "float ptr"
  assumes i: "0 \<le> i" "i < int len"
    and h: "h = data i"
    and r: "r = float16_to_float_na data len res i"
  shows "(h = 0x0000 \<longrightarrow> r = 0x00000000 \<and> f32_value r = 0 \<and> \<not> f32_sign r) \<and>
         (h = 0x8000 \<longrightarrow> r = 0x80000000 \<and> f32_value r = 0 \<and> f32_sign r) \<and>
         (h = 0x0001 \<longrightarrow> r = 0x33800000 \<and> f32_value r = 1 / 2 ^ 24) \<and>
         (h = 0x3C00 \<longrightarrow> r = 0x3F800000 \<and> f32_value r = 1) \<and>
         (h = 0x7BFF \<longrightarrow> r = 0x477FE000 \<and> f32_value r = 65504) \<and>
         (h = 0x7C00 \<longrightarrow> r = 0x7F800000 \<and> f32_is_inf r \<and> \<not> f32_sign r) \<and>
         (h = 0xFC00 \<longrightarrow> r = 0xFF800000 \<and> f32_is_inf r \<and> f32_sign r) \<and>
         (h = 0x7E00 \<longrightarrow> r = 0x7FC00000 \<and> f32_is_nan r) \<and>
         (h AND 0x7c00 = 0 \<and> h AND 0x03ff \<noteq> 0 \<longrightarrow>
            (let m = unat (h AND 0x03ff); leadingZeros = 10 - bit_length m in
               f32_sign r = bit h 15 \<and>
               f32_exp r = 127 - 15 - leadingZeros \<and>
               f32_frac r = (m * 2 ^ (leadingZeros + 1 + 13)) mod 2 ^ 23 \<and>
               f32_value r = (if bit h 15 then - real m else real m) / 2 ^ 24))"
proof -
  have d: "r = float16_decode h" using i by (simp add: r h float16_to_float_na_eq)
  have sub: "let m = unat (h AND 0x03ff); leadingZeros = 10 - bit_length m in
               f32_sign r = bit h 15 \<and>
               f32_exp r = 127 - 15 - leadingZeros \<and>
               f32_frac r = (m * 2 ^ (leadingZeros + 1 + 13)) mod 2 ^ 23 \<and>
               f32_value r = (if bit h 15 then - real m else real m) / 2 ^ 24"
    if "h AND 0x7c00 = 0" "h AND 0x03ff \<noteq> 0"
    unfolding Let_def d
    using float16_decode_subnormal_fields(1,2) [OF that] float16_decode_subnormal_value(1,3) [OF that]
    by (simp only: simp_thms)
  show ?thesis
  proof (intro conjI impI)
    assume "h AND 0x7c00 = 0 \<and> h AND 0x03ff \<noteq> 0"
    then have "h AND 0x7c00 = 0" "h AND 0x03ff \<noteq> 0" by blast+
    then show "let m = unat (h AND 0x03ff); leadingZeros = 10 - bit_length m in
               f32_sign r = bit h 15 \<and>
               f32_exp r = 127 - 15 - leadingZeros \<and>
               f32_frac r = (m * 2 ^ (leadingZeros + 1 + 13)) mod 2 ^ 23 \<and>
               f32_value r = (if bit h 15 then - real m else real m) / 2 ^ 24"
      by (rule sub)
  qed (simp_all only: d float16_decode_literals binary32_literals simp_thms)
qed


theorem float16_to_float_na_decodes_witness:
  "map (float16_to_float_na
          (\<lambda>k. [0x0000, 0x8000, 0x0001, 0x3C00, 0x7BFF, 0x7C00, 0xFC00, 0x7E00, 0x8003] ! nat k) 9 (\<lambda>_. 0))
       [0, 1, 2, 3, 4, 5, 6, 7]
     = [0x00000000, 0x80000000, 0x33800000, 0x3F800000, 0x477FE000, 0x7F800000, 0xFF800000, 0x7FC00000] \<and>
   f32_sign (float16_to_float_na
          (\<lambda>k. [0x0000, 0x8000, 0x0001, 0x3C00, 0x7BFF, 0x7C00, 0xFC00, 0x7E00, 0x8003] ! nat k) 9 (\<lambda>_. 0) 8) \<and>
   f32_exp (float16_to_float_na
          (\<lambda>k. [0x0000, 0x8000, 0x0001, 0x3C00, 0x7BFF, 0x7C00, 0xFC00, 0x7E00, 0x8003] ! nat k) 9 (\<lambda>_. 0) 8) = 104 \<and>
   f32_frac (float16_to_float_na
          (\<lambda>k. [0x0000, 0x8000, 0x0001, 0x3C00, 0x7BFF, 0x7C00, 0xFC00, 0x7E00, 0x8003] ! nat k) 9 (\<lambda>_. 0) 8) = 0x400000 \<and>
   f32_value (float16_to_float_na
          (\<lambda>k. [0x0000, 0x8000, 0x0001, 0x3C00, 0x7BFF, 0x7C00, 0xFC00, 0x7E00, 0x8003] ! nat k) 9 (\<lambda>_. 0) 8) = - 3 / 2 ^ 24"
proof -
  define d :: "uint16_t ptr"
    where "d = (\<lambda>k. [0x0000, 0x8000, 0x0001, 0x3C00, 0x7BFF, 0x7C00, 0xFC00, 0x7E00, 0x8003] ! nat k)"
  define R where "R = float16_to_float_na d 9 (\<lambda>_. 0)"
  have d: "d 0 = 0x0000" "d 1 = 0x8000" "d 2 = 0x0001" "d 3 = 0x3C00" "d 4 = 0x7BFF" "d 5 = 0x7C00"
    "d 6 = 0xFC00" "d 7 = 0x7E00" "d 8 = 0x8003"
    by (simp_all add: d_def)
  note t = float16_to_float_na_decodes [where data = d and len = 9 and res = "\<lambda>_. 0", OF _ _ _ R_def [THEN fun_cong]]
  have r0: "R 0 = 0x00000000" using t [of 0 "0x0000"] by (simp add: d)
  have r1: "R 1 = 0x80000000" using t [of 1 "0x8000"] by (simp add: d)
  have r2: "R 2 = 0x33800000" using t [of 2 "0x0001"] by (simp add: d)
  have r3: "R 3 = 0x3F800000" using t [of 3 "0x3C00"] by (simp add: d)
  have r4: "R 4 = 0x477FE000" using t [of 4 "0x7BFF"] by (simp add: d)
  have r5: "R 5 = 0x7F800000" using t [of 5 "0x7C00"] by (simp add: d)
  have r6: "R 6 = 0xFF800000" using t [of 6 "0xFC00"] by (simp add: d)
  have r7: "R 7 = 0x7FC00000" using t [of 7 "0x7E00"] by (simp add: d)
  have b: "bit_length 3 = 2" by (simp add: bit_length_floorlog compute_floorlog)
  have m: "(0x8003 :: uint16_t) AND 0x7c00 = 0" "(0x8003 :: uint16_t) AND 0x3ff = 3"
    "bit (0x8003 :: uint16_t) 15" by simp_all
  have r8: "f32_sign (R 8) \<and> f32_exp (R 8) = 104 \<and> f32_frac (R 8) = 0x400000 \<and> f32_value (R 8) = - 3 / 2 ^ 24"
    using t [of 8 "0x8003"] by (simp add: d m b Let_def)
  show ?thesis using r0 r1 r2 r3 r4 r5 r6 r7 r8 unfolding R_def d_def by simp
qed

section \<open>Multiplication by a scalar\<close>

lemma vstore_map_vload:
  "vstore res i (map f (vload n p i)) = (\<lambda>k. if i \<le> k \<and> k < i + int n then f (p k) else res k)"
  by (auto simp: vstore_def vload_def fun_eq_iff)

lemma mm256_mul_ps_set1:
  "mm256_mul_ps fmul (vload 8 p i) (replicate 8 v) = map (\<lambda>x. fmul x v) (vload 8 p i)"
  by (simp add: mm256_mul_ps_def vload_8 replicate_8)

lemma div_floor_le: "0 < w \<Longrightarrow> w * (x div w) \<le> (x::int)"
  using mult_div_mod_eq [of w x] pos_mod_sign [of w x] by linarith

lemma div_floor_nonneg: "0 < w \<Longrightarrow> 0 \<le> x \<Longrightarrow> 0 \<le> w * (x div w)" for x :: int
  by (simp add: pos_imp_zdiv_nonneg_iff)

lemma loop_end_vec:
  assumes w: "0 < w"
  shows "loop_end i (n - (w - 1)) w = max i (i + w * ((n - i) div w))"
proof (cases "i < n - (w - 1)")
  case True
  define m where "m = n - w - i"
  have "n - i = m + w" by (simp add: m_def)
  then have "(n - i) div w = (m + w) div w" by (simp only:)
  also have "\<dots> = m div w + 1" using w by simp
  finally have e: "(n - w - i) div w + 1 = (n - i) div w" by (simp add: m_def)
  have "0 \<le> n - i" using True w by simp
  then have "0 \<le> w * ((n - i) div w)" by (rule div_floor_nonneg [OF w])
  then show ?thesis using True by (simp add: loop_end_def e max_def)
next
  case False
  then have "n - i < w" by simp
  then have "w * ((n - i) div w) < w * 1" using div_floor_le [OF w, of "n - i"] by simp
  then have "(n - i) div w < 1" using w by (simp only: mult_less_cancel_left_pos)
  then have "(n - i) div w \<le> 0" by simp
  then have "w * ((n - i) div w) \<le> 0" using w by (simp add: mult_le_0_iff)
  then show ?thesis using False by (simp add: loop_end_def max_def)
qed

lemma loop_end_vec8: "loop_end i (n - 7) 8 = max i (i + 8 * ((n - i) div 8))"
  using loop_end_vec [of 8 i n] by simp

lemma loop_end_vec16: "loop_end i (n - 15) 16 = max i (i + 16 * ((n - i) div 16))"
  using loop_end_vec [of 16 i n] by simp

lemma div16_bounds:
  fixes L :: int
  assumes "0 \<le> L"
  shows "0 \<le> 2 * (L div 16)" "2 * (L div 16) \<le> L" "0 \<le> 4 * (L div 16)" "4 * (L div 16) \<le> L"
    "0 \<le> 8 * (L div 16)" "8 * (L div 16) \<le> L" "0 \<le> 16 * (L div 16)" "16 * (L div 16) \<le> L"
proof -
  have a: "0 \<le> L div 16" using assms by (simp add: pos_imp_zdiv_nonneg_iff)
  have b: "16 * (L div 16) \<le> L" by (simp add: div_floor_le)
  show "0 \<le> 2 * (L div 16)" "2 * (L div 16) \<le> L" "0 \<le> 4 * (L div 16)" "4 * (L div 16) \<le> L"
    "0 \<le> 8 * (L div 16)" "8 * (L div 16) \<le> L" "0 \<le> 16 * (L div 16)" "16 * (L div 16) \<le> L"
    using a b by linarith+
qed

lemma div8_step:
  fixes j :: int
  assumes j: "0 \<le> j" "j < L - 15"
  shows "0 \<le> j div 8" "j div 8 + 1 \<le> L" "(j + 16) div 8 = j div 8 + 1 + 1"
proof -
  show a: "0 \<le> j div 8" using j by (simp add: pos_imp_zdiv_nonneg_iff)
  have "8 * (j div 8) \<le> j" by (simp add: div_floor_le)
  then show "j div 8 + 1 \<le> L" using a j by linarith
  have "(j + 16) div 8 = (j + 2 * 8) div 8" by simp
  also have "\<dots> = j div 8 + 2" using div_mult_self1 [of 8 j 2] by simp
  finally show "(j + 16) div 8 = j div 8 + 1 + 1" by simp
qed

lemma div16_div8: "(16 * (L div 16)) div 8 = 2 * (L div 16)" for L :: int
proof -
  have "16 * (L div 16) = (2 * (L div 16)) * 8" by simp
  then show ?thesis using nonzero_mult_div_cancel_right [of 8 "2 * (L div 16)"] by simp
qed

lemma and_minus_8: "(x::int) AND - 8 = 8 * (x div 8)"
  using and_not_7 [of x] by simp

lemma and_minus_16: "(x::int) AND - 16 = 16 * (x div 16)"
  using and_not_15 [of x] by simp

lemma and_minus_4: "(x::int) AND - 4 = 4 * (x div 4)"
  using and_not_3 [of x] by simp

lemma real_multiply_scalar_na_eq:
  "real_multiply_scalar_na fmul array len v res =
     (\<lambda>k. if 0 \<le> k \<and> k < int len then fmul (array k) v else res k)"
  unfolding real_multiply_scalar_na_def by (rule for_loop_store_1)

lemma real_multiply_scalar_avx_body:
  "for_loop i n 8 (\<lambda>i res. vstore res i (mm256_mul_ps fmul (vload 8 array i) (replicate 8 v))) res
     = (\<lambda>k. if i \<le> k \<and> k < loop_end i n 8 then fmul (array k) v else res k)"
  by (rule for_loop_store) (simp_all add: Let_def mm256_mul_ps_set1 vstore_map_vload)

lemma real_multiply_scalar_avx_elem:
  assumes len: "len < 2 ^ 31" and s: "0 \<le> startIndex" and i: "0 \<le> i" "i < int len"
  shows "real_multiply_scalar_avx fmul startIndex resIndex array len v res i = fmul (array i) v"
proof (cases "startIndex = resIndex")
  case True
  have "i < startIndex \<or> (startIndex \<le> i \<and> i < max startIndex (startIndex + 8 * ((int len - startIndex) div 8)))
      \<or> startIndex + 8 * ((int len - startIndex) div 8) \<le> i"
    by (simp add: max_def) linarith
  then show ?thesis using True i
    by (auto simp: real_multiply_scalar_avx_def Let_def int_of_size_t_small [OF len]
          for_loop_store_1 real_multiply_scalar_avx_body loop_end_vec8 and_minus_8)
next
  case False
  have "8 * ((int len - startIndex) div 8) \<le> 8 * (int len div 8)"
    using s by (simp add: zdiv_mono1)
  then have "i < max 0 (8 * (int len div 8)) \<or> 8 * ((int len - startIndex) div 8) \<le> i"
    by (simp add: max_def) linarith
  then show ?thesis using False i
    by (auto simp: real_multiply_scalar_avx_def Let_def int_of_size_t_small [OF len]
          for_loop_store_1 real_multiply_scalar_avx_body loop_end_vec8 and_minus_8)
qed

text \<open>
  When the scalar prefix fits in the array (\<open>startIndex \<le> length\<close>) the routine writes nothing
  outside the first \<open>length\<close> elements, so the whole output buffer is the one the scalar
  routine leaves. For a shorter array the prefix runs up to \<open>startIndex\<close> all the same.
\<close>

lemma real_multiply_scalar_avx_frame:
  assumes len: "len < 2 ^ 31" and s: "0 \<le> startIndex" "startIndex \<le> int len"
    and i: "i < 0 \<or> int len \<le> i"
  shows "real_multiply_scalar_avx fmul startIndex resIndex array len v res i = res i"
proof -
  define q where "q = 8 * ((int len - startIndex) div 8)"
  define q' where "q' = 8 * (int len div 8)"
  have a: "0 \<le> q" "startIndex + q \<le> int len" "0 \<le> q'" "q' \<le> int len"
    using s div_floor_le [of 8 "int len - startIndex"]
    by (simp_all add: div_floor_nonneg div_floor_le q_def q'_def)
  have c: "(i < 0 \<and> i < q \<and> i < q' \<and> i < startIndex \<and> i < startIndex + q) \<or>
        (int len \<le> i \<and> startIndex \<le> i \<and> startIndex + q \<le> i \<and> q' \<le> i)"
    using a s i by linarith
  show ?thesis
  proof (cases "startIndex = resIndex")
    case True
    have "real_multiply_scalar_avx fmul startIndex startIndex array len v res i = res i"
      using c i
      by (auto simp: real_multiply_scalar_avx_def Let_def int_of_size_t_small [OF len]
          for_loop_store_1 real_multiply_scalar_avx_body loop_end_vec8 and_minus_8
          max_def simp flip: q_def q'_def)
    then show ?thesis by (simp only: True)
  next
    case False
    then show ?thesis
      using c i
      by (auto simp: real_multiply_scalar_avx_def Let_def int_of_size_t_small [OF len]
          for_loop_store_1 real_multiply_scalar_avx_body loop_end_vec8 and_minus_8
          max_def simp flip: q_def q'_def)
  qed
qed

lemma real_multiply_scalar_avx_eq_na:
  assumes len: "len < 2 ^ 31" and s: "0 \<le> startIndex" "startIndex \<le> int len"
  shows "real_multiply_scalar_avx fmul startIndex resIndex array len v res
       = real_multiply_scalar_na fmul array len v res"
proof (rule ext)
  fix i
  show "real_multiply_scalar_avx fmul startIndex resIndex array len v res i
       = real_multiply_scalar_na fmul array len v res i"
  proof (cases "0 \<le> i \<and> i < int len")
    case True
    then show ?thesis
      using real_multiply_scalar_avx_elem [OF len s(1), of i fmul resIndex array v res]
      by (simp add: real_multiply_scalar_na_eq)
  next
    case False
    then have o: "i < 0 \<or> int len \<le> i" by linarith
    show ?thesis
      using False by (auto simp: real_multiply_scalar_na_eq real_multiply_scalar_avx_frame [OF len s o])
  qed
qed

text \<open>
  A length of \<open>2 ^ 32 + 3\<close> elements: the routines that read it through
  \<^verbatim>\<open>(int)length\<close> see the length 3.
\<close>

lemma int_of_size_t_wrapped: "int_of_size_t 4294967299 = 3"
  by (simp add: int_of_size_t_def signed_take_bit_eq_take_bit_shift take_bit_eq_mod)

lemma and_not_wrapped: "(3::int) AND NOT 15 = 0" "(3::int) AND NOT 7 = 0" "(- 2::int) AND NOT 7 = - 8"
  using and_not_15 [of 3] and_not_7 [of 3] and_not_7 [of "- 2"] by simp_all




section \<open>Sum of the elements\<close>

lemma sum_list_map2_add:
  "length xs = length ys \<Longrightarrow>
     sum_list (map2 (+) xs ys) = sum_list xs + (sum_list ys :: 'a::comm_monoid_add)"
  by (induction xs ys rule: list_induct2) (simp_all add: ac_simps)

lemma sum_ivl_split:
  "a \<le> b \<Longrightarrow> b \<le> c \<Longrightarrow> sum f {a..<b} + sum f {b..<c} = (sum f {a..<c::int} :: 'a::comm_monoid_add)"
  by (simp add: sum.union_disjoint [symmetric] ivl_disj_un_two ivl_disj_int_two)

lemma sum_ivl_Suc: "a \<le> b \<Longrightarrow> sum f {a..<b + 1} = sum f {a..<b::int} + (f b :: 'a::comm_monoid_add)"
proof -
  assume "a \<le> b"
  then have "{a..<b + 1} = insert b {a..<b}" by auto
  then show ?thesis by (simp add: ac_simps)
qed

lemma sum_list_vload_8: "sum_list (vload 8 p i) = (sum p {i..<i + 8} :: 'a::comm_monoid_add)"
proof -
  have "{i..<i + 8} = {i, i + 1, i + 2, i + 3, i + 4, i + 5, i + 6, i + 7}" by auto
  then show ?thesis by (simp add: vload_8 ac_simps)
qed

lemma length_vload: "length (vload n p i) = n"
  by (simp add: vload_def)

lemma hadd_total:
  assumes "length a = 8"
  shows "mm256_get_ps (mm256_hadd_ps (+) (mm256_hadd_ps (+) a a) (mm256_hadd_ps (+) a a)) 0
         + mm256_get_ps (mm256_hadd_ps (+) (mm256_hadd_ps (+) a a) (mm256_hadd_ps (+) a a)) 4
         = (sum_list a :: 'a::comm_monoid_add)"
proof -
  obtain a0 a1 a2 a3 a4 a5 a6 a7 where "a = [a0, a1, a2, a3, a4, a5, a6, a7]"
    using assms by (auto simp: eval_nat_numeral length_Suc_conv)
  then show ?thesis by (simp add: mm256_hadd_ps_def mm256_get_ps_def ac_simps)
qed

lemma scalar_sum_loop:
  assumes "a \<le> n"
  shows "for_loop a n 1 (\<lambda>j res. res + input j) r = r + (sum input {a..<n} :: 'a::comm_monoid_add)"
proof -
  let ?P = "\<lambda>j res. a \<le> j \<and> j \<le> n \<and> res = r + sum input {a..<j}"
  have "?P (loop_end a n 1) (for_loop a n 1 (\<lambda>j res. res + input j) r)"
  proof (rule for_loop_rule [where P = ?P])
    show "?P a r" using assms by simp
    fix j t assume "a \<le> j" "j < n" "?P j t"
    then show "?P (j + 1) (t + input j)" by (simp add: sum_ivl_Suc add.assoc)
  qed simp
  then show ?thesis using assms by (simp add: loop_end_1 max_def)
qed

lemma sum_elements_na_sum:
  assumes "len < 2 ^ 31"
  shows "sum_elements_na (+) 0 input len = (sum input {0..<int len} :: 'a::comm_monoid_add)"
  using scalar_sum_loop [of 0 "int len" input 0]
  by (simp add: sum_elements_na_def int_of_size_t_small [OF assms])

lemma vector_sum_loop:
  fixes input :: "int \<Rightarrow> 'a::comm_monoid_add" and n :: int
  assumes "length acc = 8"
  defines "r \<equiv> for_loop 0 n 16 (\<lambda>j accum. mm256_add_ps (+) (mm256_add_ps (+) accum (vload 8 input j))
                                       (vload 8 input (j + 8))) acc"
  shows "length r = 8 \<and> sum_list r = sum_list acc + sum input {0..<loop_end 0 n 16}"
proof -
  let ?P = "\<lambda>j a. 0 \<le> j \<and> length a = 8 \<and> sum_list a = sum_list acc + sum input {0..<j}"
  have "?P (loop_end 0 n 16) r" unfolding r_def
  proof (rule for_loop_rule [where P = ?P])
    show "?P 0 acc" using assms(1) by simp
    fix j t assume j: "0 \<le> j" "j < n" and P: "?P j t"
    have 1: "sum input {0..<j} + sum input {j..<j + 8} = sum input {0..<j + 8}"
      using j(1) by (intro sum_ivl_split) simp_all
    have 2: "sum input {0..<j + 8} + sum input {j + 8..<j + 16} = sum input {0..<j + 16}"
      using j(1) by (intro sum_ivl_split) simp_all
    have "j + 8 + 8 = j + 16" by simp
    then have v2: "sum_list (vload 8 input (j + 8)) = sum input {j + 8..<j + 16}"
      using sum_list_vload_8 [of input "j + 8"] by (simp only:)
    have "sum_list (mm256_add_ps (+) (mm256_add_ps (+) t (vload 8 input j)) (vload 8 input (j + 8)))
        = (sum_list t + sum input {j..<j + 8}) + sum input {j + 8..<j + 16}"
      using P v2 by (simp add: mm256_add_ps_def sum_list_map2_add length_vload sum_list_vload_8 [of input j])
    also have "\<dots> = sum_list acc + (sum input {0..<j} + sum input {j..<j + 8} + sum input {j + 8..<j + 16})"
      using P by (simp add: add.assoc)
    also have "\<dots> = sum_list acc + sum input {0..<j + 16}" by (simp only: 1 2)
    finally show "?P (j + 16) (mm256_add_ps (+) (mm256_add_ps (+) t (vload 8 input j)) (vload 8 input (j + 8)))"
      using j P by (simp add: mm256_add_ps_def length_vload)
  qed simp
  then show ?thesis by simp
qed

lemma sum_elements_avx_sum:
  fixes input :: "int \<Rightarrow> 'a::comm_monoid_add"
  assumes "len < 2 ^ 31"
  shows "sum_elements_avx (+) 0 input len = sum input {0..<int len}"
proof -
  define L where "L = int len"
  define acc where "acc = for_loop 0 (L - 15) 16
      (\<lambda>j accum. mm256_add_ps (+) (mm256_add_ps (+) accum (vload 8 input j)) (vload 8 input (j + 8)))
      (replicate 8 (0::'a))"
  have L0: "0 \<le> L" by (simp add: L_def)
  have le: "loop_end 0 (L - 15) 16 = 16 * (L div 16)"
    using L0 by (simp add: loop_end_vec16 max_def) 
  have acc: "length acc = 8" "sum_list acc = sum input {0..<16 * (L div 16)}"
    using vector_sum_loop [of "replicate 8 (0::'a)" "L - 15" input] le
    by (simp_all add: acc_def replicate_8)
  have t: "16 * (L div 16) \<le> L" by (rule div16_bounds(8) [OF L0])
  have "sum_elements_avx (+) 0 input len
      = for_loop (16 * (L div 16)) L 1 (\<lambda>j res. res + input j) (sum_list acc)"
    by (simp add: sum_elements_avx_def Let_def int_of_size_t_small [OF assms] hadd_total [OF acc(1)]
          and_minus_16 flip: L_def acc_def)
  also have "\<dots> = sum input {0..<16 * (L div 16)} + sum input {16 * (L div 16)..<L}"
    using scalar_sum_loop [OF t] acc(2) by simp
  also have "\<dots> = sum input {0..<L}" using t L0 by (simp add: sum_ivl_split)
  finally show ?thesis by (simp add: L_def)
qed

lemma hadd_replicate:
  "mm256_hadd_ps f (replicate 8 x) (replicate 8 x) = replicate 8 (f x x)"
  by (simp add: mm256_hadd_ps_def replicate_8)

lemma get_replicate: "k < 8 \<Longrightarrow> mm256_get_ps (replicate 8 x) k = x"
  by (simp add: mm256_get_ps_def)

lemma add_ps_replicate:
  "mm256_add_ps f (replicate 8 x) (replicate 8 y) = replicate 8 (f x y)"
  by (simp add: mm256_add_ps_def)

lemma vload_8_const:
  assumes "\<And>k. i \<le> k \<Longrightarrow> k < i + 8 \<Longrightarrow> p k = c"
  shows "vload 8 p i = replicate 8 c"
  using assms by (simp add: vload_8 replicate_8)

lemma sum_elements_avx_ones:
  assumes len: "len < 2 ^ 24"
    and ones: "\<And>k. 0 \<le> k \<Longrightarrow> k < int len \<Longrightarrow> input k = f32_of_int 1"
  shows "sum_elements_avx f32_add 0 input len = f32_of_int (int len)"
proof -
  define L where "L = int len"
  have L: "0 \<le> L" "L < 2 ^ 24" using len by (simp_all add: L_def)
  have len31: "len < 2 ^ 31" using len by simp
  define T where "T = 16 * (L div 16)"
  have T: "0 \<le> T" "T \<le> L" unfolding T_def by (rule div16_bounds(7,8) [OF L(1)])+
  have add1: "f32_add (f32_of_int z) (f32_of_int 1) = f32_of_int (z + 1)" if "0 \<le> z" "z \<le> L" for z
    using that L(2) by (intro f32_add_of_int) simp_all
  have dbl: "f32_add (f32_of_int z) (f32_of_int z) = f32_of_int (2 * z)" if "0 \<le> z" "z \<le> L" for z
    using that L(2) f32_add_of_int [of z z] by simp
  define body where "body = (\<lambda>j accum. mm256_add_ps f32_add
      (mm256_add_ps f32_add accum (vload 8 input j)) (vload 8 input (j + 8)))"
  let ?P = "\<lambda>j acc. 0 \<le> j \<and> j \<le> L \<and> acc = replicate 8 (f32_of_int (j div 8))"
  have "?P (loop_end 0 (L - 15) 16) (for_loop 0 (L - 15) 16 body (replicate 8 0))"
  proof (rule for_loop_rule [where P = ?P])
    show "?P 0 (replicate 8 0)" using L(1) by (simp add: f32_of_int_0)
    fix j t assume j: "0 \<le> j" "j < L - 15" and P: "?P j t"
    have v1: "vload 8 input j = replicate 8 (f32_of_int 1)"
      using j by (intro vload_8_const ones) (simp_all add: L_def)
    have v2: "vload 8 input (j + 8) = replicate 8 (f32_of_int 1)"
      using j by (intro vload_8_const ones) (simp_all add: L_def)
    note d = div8_step [OF j]
    have "body j t = replicate 8 (f32_of_int (j div 8 + 1 + 1))"
      using P d by (simp add: body_def v1 v2 add_ps_replicate add1)
    then show "?P (j + 16) (body j t)" using j d by simp
  qed simp
  moreover have "loop_end 0 (L - 15) 16 = T"
    using L(1) by (simp add: loop_end_vec16 max_def T_def)
  moreover have "T div 8 = 2 * (L div 16)" unfolding T_def by (rule div16_div8)
  ultimately have acc: "for_loop 0 (L - 15) 16 body (replicate 8 0) = replicate 8 (f32_of_int (2 * (L div 16)))"
    by simp
  note q = div16_bounds [OF L(1)]
  have h1: "f32_add (f32_of_int (2 * (L div 16))) (f32_of_int (2 * (L div 16))) = f32_of_int (4 * (L div 16))"
    using dbl [OF q(1,2)] by simp
  have h2: "f32_add (f32_of_int (4 * (L div 16))) (f32_of_int (4 * (L div 16))) = f32_of_int (8 * (L div 16))"
    using dbl [OF q(3,4)] by simp
  have h3: "f32_add (f32_of_int (8 * (L div 16))) (f32_of_int (8 * (L div 16))) = f32_of_int T"
    using dbl [OF q(5,6)] by (simp add: T_def)
  have head: "sum_elements_avx f32_add 0 input len
      = for_loop T L 1 (\<lambda>j res. f32_add res (input j)) (f32_of_int T)"
    by (simp add: sum_elements_avx_def Let_def int_of_size_t_small [OF len31] and_minus_16
          hadd_replicate get_replicate h1 h2 h3 acc [unfolded body_def] flip: L_def T_def)
  let ?Q = "\<lambda>j r. T \<le> j \<and> j \<le> L \<and> r = f32_of_int j"
  have "?Q (loop_end T L 1) (for_loop T L 1 (\<lambda>j res. f32_add res (input j)) (f32_of_int T))"
  proof (rule for_loop_rule [where P = ?Q])
    show "?Q T (f32_of_int T)" using T by simp
    fix j r assume j: "T \<le> j" "j < L" and Q: "?Q j r"
    have "input j = f32_of_int 1" using j T by (intro ones) (simp_all add: L_def)
    then show "?Q (j + 1) (f32_add r (input j))" using j Q T add1 [of j] by simp
  qed simp
  then show ?thesis using T by (simp add: head loop_end_1 max_def L_def)
qed

text \<open>
  C7. The AVX \<^verbatim>\<open>sum_elements\<close> returns \<open>0.0\<close> for the length 0, whatever the buffer
  holds, and the float \<open>1000.0\<close> for 1000 elements \<open>1.0\<close>. Run over any commutative
  monoid in place of the floats, it returns for every length below \<open>2 ^ 31\<close> the sum of
  the elements at the indices \<open>0 \<le> k < length\<close>, as \<^verbatim>\<open>sum_elements_na\<close> does: each
  element enters the result exactly once.
\<close>

theorem sum_elements_avx_exact:
  fixes inp :: "int \<Rightarrow> 'a::comm_monoid_add"
  shows "sum_elements_avx f32_add 0 input 0 = 0 \<and>
   sum_elements_avx f32_add 0 (\<lambda>_. 0x3F800000) 1000 = 0x447A0000 \<and>
   f32_value 0 = 0 \<and> f32_value 0x3F800000 = 1 \<and> f32_value 0x447A0000 = 1000 \<and>
   (len < 2 ^ 31 \<longrightarrow>
      sum_elements_avx (+) 0 inp len = sum inp {0..<int len} \<and>
      sum_elements_na (+) 0 inp len = sum inp {0..<int len})"
proof (intro conjI impI)
  show "sum_elements_avx f32_add 0 input 0 = 0"
    using sum_elements_avx_ones [of 0 input] by (simp add: f32_of_int_0)
  show "sum_elements_avx f32_add 0 (\<lambda>_. 0x3F800000) 1000 = 0x447A0000"
    using sum_elements_avx_ones [of 1000 "\<lambda>_. 0x3F800000"] by (simp add: f32_of_int_1 f32_of_int_1000)
qed (simp_all add: f32_values sum_elements_avx_sum sum_elements_na_sum)

theorem sum_elements_avx_exact_witness:
  "(20::nat) < 2 ^ 31 \<and>
   sum_elements_avx (+) {#} (\<lambda>k. {#k#}) 20 = mset_set {0..<20} \<and>
   sum_elements_na (+) {#} (\<lambda>k. {#k#}) 20 = mset_set {0..<20}"
  using sum_elements_avx_exact [of undefined 20 "\<lambda>k. {#k#}"] by simp


text \<open>
  C7, beyond \<open>2 ^ 31\<close>. For the length \<open>2 ^ 32 + 3\<close> the AVX \<^verbatim>\<open>sum_elements\<close> adds the
  elements 0, 1 and 2 only, as \<^verbatim>\<open>sum_elements_na\<close> does: the element 3, below the length,
  is left out, and over elements \<open>1.0\<close> the float result is \<open>3.0\<close>.
\<close>

theorem sum_elements_avx_length_wraps:
  "sum_elements_avx (+) {#} (\<lambda>k. {#k#}) 4294967299 = {#0, 1, 2#} \<and>
   sum_elements_na (+) {#} (\<lambda>k. {#k#}) 4294967299 = {#0, 1, 2#} \<and>
   (3::int) < int 4294967299 \<and>
   count (sum_elements_avx (+) {#} (\<lambda>k. {#k#}) 4294967299) 3 = 0 \<and>
   sum_elements_avx f32_add 0 (\<lambda>_. 0x3F800000) 4294967299 = 0x40400000"
proof -
  have a: "f32_add 0 0 = 0" using f32_add_of_int [of 0 0] by (simp add: f32_of_int_0)
  have b: "f32_add 0 0x3F800000 = f32_of_int 1"
    using f32_add_of_int [of 0 1] by (simp add: f32_of_int_0 f32_of_int_1)
  have c: "f32_add (f32_of_int 1) 0x3F800000 = f32_of_int 2"
    using f32_add_of_int [of 1 1] by (simp add: f32_of_int_1)
  have d: "f32_add (f32_of_int 2) 0x3F800000 = f32_of_int 3"
    using f32_add_of_int [of 2 1] by (simp add: f32_of_int_1)
  have e: "f32_of_int 3 = 0x40400000"
    by (simp add: f32_of_int_def f32_round_def f32_pack_def bit_length.simps Let_def)
  have 1: "sum_elements_avx (+) {#} (\<lambda>k. {#k#}) 4294967299 = {#0, 1, 2::int#}"
    by (simp add: sum_elements_avx_def int_of_size_t_wrapped Let_def for_loop_step for_loop_stop
          and_not_wrapped replicate_8 mm256_hadd_ps_def mm256_get_ps_def)
  have 2: "sum_elements_na (+) {#} (\<lambda>k. {#k#}) 4294967299 = {#0, 1, 2::int#}"
    by (simp add: sum_elements_na_def int_of_size_t_wrapped for_loop_step for_loop_stop)
  have 3: "sum_elements_avx f32_add 0 (\<lambda>_. 0x3F800000) 4294967299 = 0x40400000"
    by (simp add: sum_elements_avx_def int_of_size_t_wrapped Let_def for_loop_step for_loop_stop
          and_not_wrapped replicate_8 mm256_hadd_ps_def mm256_get_ps_def a b c d e)
  show ?thesis unfolding 1 2 3 by simp
qed

section \<open>Properties of \<open>next_highest_power_of_2\<close>\<close>

lemma bit32_high: "bit (x :: 32 word) n \<Longrightarrow> n < 32"
  using bit_imp_le_length [of x n] by simp

lemma smeared_top:
  assumes "smeared c a x" "\<not> bit x 31"
  shows "\<not> bit a 31"
proof
  assume "bit a 31"
  then obtain j where "bit x (31 + j)" using assms(1) by (auto simp: smeared_def)
  then show False using assms(2) bit32_high [of x "31 + j"] by (cases j) auto
qed

lemma sdb_nonneg:
  assumes "\<not> bit (a :: 32 word) 31"
  shows "bit (signed_drop_bit m a) n \<longleftrightarrow> bit a (m + n)"
  using assms bit32_high [of a "m + n"]
  by (auto simp: bit_signed_drop_bit_iff)

lemma smeared_step:
  assumes "smeared c a x" "\<not> bit x 31"
  shows "smeared (2 * c + 1) (a OR signed_drop_bit (Suc c) a) x"
proof -
  have top: "\<not> bit a 31" using assms by (rule smeared_top)
  have a: "\<And>n. bit a n \<longleftrightarrow> (\<exists>j\<le>c. bit x (n + j))"
    using assms(1) by (simp add: smeared_def)
  show ?thesis unfolding smeared_def
  proof (intro allI iffI)
    fix n assume "bit (a OR signed_drop_bit (Suc c) a) n"
    then consider "bit a n" | "bit a (Suc c + n)"
      by (auto simp: bit_or_iff sdb_nonneg [OF top])
    then show "\<exists>j\<le>2 * c + 1. bit x (n + j)"
    proof cases
      case 1
      then obtain j where "j \<le> c" "bit x (n + j)" using a by blast
      then show ?thesis by (intro exI [of _ j]) simp
    next
      case 2
      then obtain j where "j \<le> c" "bit x (Suc c + n + j)" using a by blast
      then show ?thesis by (intro exI [of _ "Suc c + j"]) (simp add: ac_simps)
    qed
  next
    fix n assume "\<exists>j\<le>2 * c + 1. bit x (n + j)"
    then obtain j where j: "j \<le> 2 * c + 1" "bit x (n + j)" by blast
    show "bit (a OR signed_drop_bit (Suc c) a) n"
    proof (cases "j \<le> c")
      case True
      then have "bit a n" using a j by blast
      then show ?thesis by (simp add: bit_or_iff)
    next
      case False
      then have "j - Suc c \<le> c" "Suc c + n + (j - Suc c) = n + j" using j by auto
      then have "bit a (Suc c + n)" using a [of "Suc c + n"] j(2) by metis
      then show ?thesis by (simp add: bit_or_iff sdb_nonneg [OF top])
    qed
  qed
qed

lemma smeared_step':
  "smeared c a x \<Longrightarrow> \<not> bit x 31 \<Longrightarrow> m = Suc c \<Longrightarrow> c' = 2 * c + 1
    \<Longrightarrow> smeared c' (a OR signed_drop_bit m a) x"
  using smeared_step by simp

lemma smeared_all:
  assumes "\<not> bit (x :: 32 word) 31"
  defines "v1 \<equiv> x OR signed_drop_bit 1 x"
  defines "v2 \<equiv> v1 OR signed_drop_bit 2 v1"
  defines "v3 \<equiv> v2 OR signed_drop_bit 4 v2"
  defines "v4 \<equiv> v3 OR signed_drop_bit 8 v3"
  defines "v5 \<equiv> v4 OR signed_drop_bit 16 v4"
  shows "smeared 31 v5 x"
proof -
  have s0: "smeared 0 x x" by (simp add: smeared_def)
  have s1: "smeared 1 v1 x" unfolding v1_def by (rule smeared_step' [OF s0 assms(1)]) simp_all
  have s2: "smeared 3 v2 x" unfolding v2_def by (rule smeared_step' [OF s1 assms(1)]) simp_all
  have s3: "smeared 7 v3 x" unfolding v3_def by (rule smeared_step' [OF s2 assms(1)]) simp_all
  have s4: "smeared 15 v4 x" unfolding v4_def by (rule smeared_step' [OF s3 assms(1)]) simp_all
  show ?thesis unfolding v5_def by (rule smeared_step' [OF s4 assms(1)]) simp_all
qed

lemma bit_nat_ge: "bit (X::nat) m \<Longrightarrow> 2 ^ m \<le> X"
  by (rule ccontr) (simp add: bit_nat_def not_le)

lemma bit_nat_top:
  assumes "0 < L" "2 ^ (L - 1) \<le> X" "(X::nat) < 2 ^ L"
  shows "bit X (L - 1)"
proof -
  obtain k where L: "L = Suc k" using assms(1) by (cases L) auto
  have "X div 2 ^ k < 2" using assms(3) by (simp add: L less_mult_imp_div_less mult.commute)
  moreover have "1 \<le> X div 2 ^ k" using assms(2) by (simp add: L div_greater_zero_iff Suc_le_eq)
  ultimately have "X div 2 ^ k = 1" by simp
  then show ?thesis by (simp add: bit_nat_def L)
qed

lemma smear_mask:
  assumes X: "X < 2 ^ 30" and sm: "smeared 31 y (of_nat X)"
  shows "y = mask (floorlog 2 X)"
proof (rule bit_eqI)
  fix n
  let ?L = "floorlog 2 X"
  have L30: "?L \<le> 30" using X by (simp add: floorlog_le_iff)
  have y: "bit y n \<longleftrightarrow> (\<exists>j\<le>31. bit (of_nat X :: 32 word) (n + j))"
    using sm by (simp add: smeared_def)
  show "bit y n \<longleftrightarrow> bit (mask ?L :: 32 word) n"
  proof
    assume "bit y n"
    then obtain j where j: "bit (of_nat X :: 32 word) (n + j)" using y by blast
    then have "bit X (n + j)" by (simp add: bit_of_nat_iff)
    then have le: "2 ^ (n + j) \<le> X" by (rule bit_nat_ge)
    then have "0 < X" by (metis less_le_trans zero_less_numeral zero_less_power)
    then have "X < 2 ^ ?L" using floorlog_bounds [of X 2] by simp
    with le have "(2::nat) ^ (n + j) < 2 ^ ?L" by (rule le_less_trans)
    then have "n + j < ?L" by simp
    then show "bit (mask ?L :: 32 word) n" using L30 by (simp add: bit_mask_iff)
  next
    assume "bit (mask ?L :: 32 word) n"
    then have n: "n < ?L" by (simp add: bit_mask_iff)
    then have pos: "0 < X" by (cases "X = 0") (simp_all add: floorlog_def)
    have "bit X (?L - 1)"
      using n floorlog_bounds [OF pos, of 2] by (intro bit_nat_top) simp_all
    moreover have "?L - 1 < 32" using L30 by simp
    ultimately have "bit (of_nat X :: 32 word) (n + (?L - 1 - n))"
      using n by (simp add: bit_of_nat_iff)
    moreover have "?L - 1 - n \<le> 31" using L30 by simp
    ultimately show "bit y n" using y by blast
  qed
qed

lemma next_highest_power_of_2_nat:
  assumes X: "X < 2 ^ 30"
  shows "next_highest_power_of_2 (of_nat (Suc X)) = 2 ^ floorlog 2 X"
proof -
  have lt: "X < 2 ^ 31" using X by simp
  have "\<not> bit (of_nat X :: 32 word) 31"
    using bit_nat_ge [of X 31] lt by (auto simp: bit_of_nat_iff)
  from smeared_all [OF this] have "smeared 31
     (let v = (of_nat X :: 32 word);
          v = v OR signed_drop_bit 1 v;
          v = v OR signed_drop_bit 2 v;
          v = v OR signed_drop_bit 4 v;
          v = v OR signed_drop_bit 8 v;
          v = v OR signed_drop_bit 16 v
      in v) (of_nat X)" by (simp add: Let_def)
  from smear_mask [OF X this] show ?thesis
    by (simp add: next_highest_power_of_2_def Let_def inc_mask_eq_exp)
qed

text \<open>
  C9. \<open>next_highest_power_of_2 0\<close> is 0, and for every \<open>value\<close> with
  \<open>1 \<le> value \<le> 2 ^ 30\<close> the result is a power of two, is at least \<open>value\<close>, and
  is at most every power of two that is at least \<open>value\<close> (so a power of two is returned
  unchanged).
\<close>

theorem next_highest_power_of_2_smallest:
  "next_highest_power_of_2 0 = 0 \<and>
   (1 \<le> sint v \<and> sint v \<le> 2 ^ 30 \<longrightarrow>
     (\<exists>k. sint (next_highest_power_of_2 v) = 2 ^ k \<and> sint v \<le> 2 ^ k \<and>
          (\<forall>j. sint v \<le> 2 ^ j \<longrightarrow> (2::int) ^ k \<le> 2 ^ j)))"
proof (intro conjI impI)
  show "next_highest_power_of_2 0 = 0" by (simp add: next_highest_power_of_2_def)
next
  assume a: "1 \<le> sint v \<and> sint v \<le> 2 ^ 30"
  define X where "X = nat (sint v) - 1"
  have sv: "sint v = int (Suc X)" using a by (simp add: X_def)
  have X: "X < 2 ^ 30" using a unfolding X_def by simp linarith
  have v: "v = of_nat (Suc X)"
  proof -
    have "v = word_of_int (sint v)" by simp
    also have "\<dots> = of_nat (Suc X)" unfolding sv by (rule of_int_of_nat_eq)
    finally show ?thesis .
  qed
  let ?L = "floorlog 2 X"
  have L30: "?L \<le> 30" using X by (simp add: floorlog_le_iff)
  have r: "next_highest_power_of_2 v = 2 ^ ?L" 
    unfolding v by (rule next_highest_power_of_2_nat [OF X])
  have s: "sint (2 ^ ?L :: 32 word) = 2 ^ ?L"
  proof -
    have "(2::int) ^ ?L \<le> 2 ^ 30" using L30 by (intro power_increasing) simp_all
    then have b: "(2::int) ^ ?L < 2 ^ 31" by simp
    have "sint (2 ^ ?L :: 32 word) = sint (word_of_int (2 ^ ?L) :: 32 word)" by simp
    also have "\<dots> = signed_take_bit 31 ((2::int) ^ ?L)"
      by (simp only: sint_sbintrunc') simp
    also have "\<dots> = 2 ^ ?L"
    proof (rule signed_take_bit_int_eq_self)
      have "- (2 ^ 31) \<le> (0::int)" by simp
      also have "\<dots> \<le> 2 ^ ?L" by simp
      finally show "- (2 ^ 31) \<le> (2::int) ^ ?L" .
      show "(2::int) ^ ?L < 2 ^ 31" by (rule b)
    qed
    finally show ?thesis .
  qed
  have XL: "X < 2 ^ ?L" using floorlog_le_iff [of 2 X ?L] by simp
  show "\<exists>k. sint (next_highest_power_of_2 v) = 2 ^ k \<and> sint v \<le> 2 ^ k \<and>
          (\<forall>j. sint v \<le> 2 ^ j \<longrightarrow> (2::int) ^ k \<le> 2 ^ j)"
  proof (intro exI [of _ ?L] conjI allI impI)
    show "sint (next_highest_power_of_2 v) = 2 ^ ?L" using r s by simp
    show "sint v \<le> 2 ^ ?L" using XL unfolding sv
      by (metis Suc_leI of_nat_le_iff of_nat_numeral of_nat_power)
    fix j assume "sint v \<le> 2 ^ j"
    then have "int (Suc X) \<le> int (2 ^ j)" by (simp add: sv)
    then have "X < 2 ^ j" by linarith
    then have "?L \<le> j" by (simp add: floorlog_le_iff)
    then show "(2::int) ^ ?L \<le> 2 ^ j" by simp
  qed
qed

theorem next_highest_power_of_2_smallest_witness:
  "1 \<le> sint (5 :: int32_t) \<and> sint (5 :: int32_t) \<le> 2 ^ 30 \<and>
   (\<exists>k. sint (next_highest_power_of_2 5) = 2 ^ k \<and> sint (5 :: int32_t) \<le> 2 ^ k \<and>
        (\<forall>j. sint (5 :: int32_t) \<le> 2 ^ j \<longrightarrow> (2::int) ^ k \<le> 2 ^ j))"
  using next_highest_power_of_2_smallest [of 5] by simp

end
